theory Spec2Isabelle
  imports Main "HOL-Library.Word"
begin

unbundle bit_operations_syntax

section \<open>Values shared by the reader and the encoder\<close>

text \<open>
  The program is \<^verbatim>\<open>scripts/rank_required_courses.py\<close>. Its strings are
  modelled as lists of \<^typ>\<open>char\<close>, read as the code points 0 to 255; its byte strings
  as lists of 8-bit words; its integers as \<^typ>\<open>int\<close>. Every exception the modelled
  code can raise is a value of \<open>py_error\<close>, and a function that may raise returns
  \<open>py_error + 'a\<close> with \<open>Inl\<close> for the exception.
\<close>

type_synonym byte = "8 word"

datatype py_error =
    TypeError | ValueError | KeyError | IndexError | AttributeError
  | StructError | ParseError | OSError
  | FileExistsError | FileNotFoundError | NotADirectoryError | IsADirectoryError

section \<open>Cell references: \<open>col_index\<close>\<close>

text \<open>
  \<open>str.isalpha\<close> and \<open>str.upper\<close> of a single code point below 256, as the Unicode
  character database gives them: the letters are A-Z, a-z, the ordinal indicators 170
  and 186, the micro sign 181 and the Latin-1 letters 192-255 without the two
  arithmetic signs 215 and 247. Upper-casing maps the micro sign to code point 924,
  y-diaeresis to 376 and the sharp s to the two characters SS.
\<close>

definition str_isalpha :: "char \<Rightarrow> bool" where
  "str_isalpha ch =
     (let n = (of_char ch :: nat) in
        (65 \<le> n \<and> n \<le> 90) \<or> (97 \<le> n \<and> n \<le> 122) \<or> n = 170 \<or> n = 181 \<or> n = 186
        \<or> (192 \<le> n \<and> n \<le> 214) \<or> (216 \<le> n \<and> n \<le> 246) \<or> 248 \<le> n)"

definition str_upper :: "char \<Rightarrow> nat list" where
  "str_upper ch =
     (let n = (of_char ch :: nat) in
        if 97 \<le> n \<and> n \<le> 122 then [n - 32]
        else if n = 181 then [924]
        else if n = 223 then [83, 83]
        else if (224 \<le> n \<and> n \<le> 246) \<or> (248 \<le> n \<and> n \<le> 254) then [n - 32]
        else if n = 255 then [376]
        else [n])"

text \<open>\<open>ord\<close> raises \<open>TypeError\<close> unless its argument is one character long.\<close>

definition py_ord :: "nat list \<Rightarrow> py_error + int" where
  "py_ord s = (case s of [n] \<Rightarrow> Inr (int n) | _ \<Rightarrow> Inl TypeError)"

text \<open>The loop of \<open>col_index\<close> over the letters, with the running \<open>value\<close>.\<close>

fun col_index_loop :: "int \<Rightarrow> string \<Rightarrow> py_error + int" where
  "col_index_loop value [] = Inr value"
| "col_index_loop value (ch # letters) =
     (case py_ord (str_upper ch) of
        Inl e \<Rightarrow> Inl e
      | Inr n \<Rightarrow> col_index_loop (value * 26 + (n - 64)) letters)"

definition col_index :: "string \<Rightarrow> py_error + int" where
  "col_index cell_ref =
     (let letters = filter str_isalpha cell_ref in
        case col_index_loop 0 letters of
          Inl e \<Rightarrow> Inl e
        | Inr value \<Rightarrow> Inr (value - 1))"

text \<open>
  The specification's reading of a column name: the letters A to Z are the digits 1 to
  26 of a base-26 numeral, accumulated as \<open>value = value * 26 + digit\<close>.
\<close>

definition alphabet :: string where
  "alphabet = ''ABCDEFGHIJKLMNOPQRSTUVWXYZ''"

definition letter_digit :: "char \<Rightarrow> int" where
  "letter_digit ch = 1 + int (length (takeWhile (\<lambda>x. x \<noteq> ch) alphabet))"

definition column_number :: "string \<Rightarrow> int" where
  "column_number letters = foldl (\<lambda>value ch. value * 26 + letter_digit ch) 0 letters"

text \<open>
  The lower-case letters, and the upper-case form of an ASCII letter: the letter at the
  same place of the alphabet.
\<close>

definition lower_alphabet :: string where
  "lower_alphabet = ''abcdefghijklmnopqrstuvwxyz''"

definition to_upper :: "char \<Rightarrow> char" where
  "to_upper ch = (case map_of (zip lower_alphabet alphabet) ch of None \<Rightarrow> ch | Some u \<Rightarrow> u)"

text \<open>The sharp s, code point 223, whose upper-case form is the two characters SS.\<close>

definition sharp_s :: char where
  "sharp_s = CHR 0xDF"

text \<open>
  The order of the column names A, B, ..., Z, AA, AB, ...: shorter names first, names of
  one length alphabetically. A letter run is a non-empty string of the letters A to Z.
\<close>

fun alpha_less :: "string \<Rightarrow> string \<Rightarrow> bool" where
  "alpha_less [] [] = False"
| "alpha_less [] (y # ys) = True"
| "alpha_less (x # xs) [] = False"
| "alpha_less (x # xs) (y # ys) =
     ((of_char x :: nat) < of_char y \<or> (x = y \<and> alpha_less xs ys))"

definition shortlex_less :: "string \<Rightarrow> string \<Rightarrow> bool" where
  "shortlex_less s1 s2 =
     (length s1 < length s2 \<or> (length s1 = length s2 \<and> alpha_less s1 s2))"

definition letter_run :: "string \<Rightarrow> bool" where
  "letter_run s = (s \<noteq> [] \<and> list_all (\<lambda>ch. ch \<in> set alphabet) s)"

text \<open>The column number of a run of \<open>n\<close> letters A: 1 + 26 + ... + 26 ^ (n - 1).\<close>

fun geo :: "nat \<Rightarrow> int" where
  "geo 0 = 0"
| "geo (Suc n) = 26 * geo n + 1"

section \<open>The workbook reader\<close>

subsection \<open>Parsed XML\<close>

text \<open>
  An element of \<open>xml.etree.ElementTree\<close>: its tag (a namespaced tag is written
  \<open>{uri}local\<close>), its attributes, its text (\<open>None\<close> when the element has none) and
  its children in document order.
\<close>

datatype element =
  Element (elem_tag: string) (elem_attrib: "(string \<times> string) list")
    (elem_text: "string option") (elem_children: "element list")

definition NS_x :: string where
  "NS_x = ''http://schemas.openxmlformats.org/spreadsheetml/2006/main''"

text \<open>The tag a path step \<open>x:name\<close> selects under the prefix map \<open>NS\<close>.\<close>

definition qn :: "string \<Rightarrow> string" where
  "qn name = ''{'' @ NS_x @ ''}'' @ name"

text \<open>\<open>el.findall("x:name", NS)\<close>: the children of \<open>el\<close> with that tag, in document order.\<close>

definition elem_findall :: "element \<Rightarrow> string \<Rightarrow> element list" where
  "elem_findall el t = filter (\<lambda>c. elem_tag c = t) (elem_children el)"

text \<open>\<open>el.find("x:name", NS)\<close>: the first such child, or \<open>None\<close>.\<close>

definition elem_find :: "element \<Rightarrow> string \<Rightarrow> element option" where
  "elem_find el t = (case elem_findall el t of [] \<Rightarrow> None | c # _ \<Rightarrow> Some c)"

text \<open>
  \<open>el.iter(tag)\<close>: the element itself when its tag matches, then the matches below each
  child, depth first. \<open>el.findall(".//x:name", NS)\<close> is that iteration without the
  element itself.
\<close>

fun elem_iter :: "string \<Rightarrow> element \<Rightarrow> element list" where
  "elem_iter t (Element tg at tx cs) =
     (if tg = t then [Element tg at tx cs] else []) @ concat (map (elem_iter t) cs)"

definition elem_findall_desc :: "element \<Rightarrow> string \<Rightarrow> element list" where
  "elem_findall_desc el t = concat (map (elem_iter t) (elem_children el))"

text \<open>\<open>node.text or ""\<close>.\<close>

definition text_or_empty :: "element \<Rightarrow> string" where
  "text_or_empty node = (case elem_text node of None \<Rightarrow> [] | Some s \<Rightarrow> s)"

text \<open>
  The specification's words for the same things: all elements below an entry in
  document order, and the text runs of a pool entry.
\<close>

fun descendants :: "element \<Rightarrow> element list" where
  "descendants (Element tg at tx cs) = concat (map (\<lambda>c. c # descendants c) cs)"

definition text_runs :: "element \<Rightarrow> string list" where
  "text_runs entry = map text_or_empty (filter (\<lambda>e. elem_tag e = qn ''t'') (descendants entry))"

definition pool_entries :: "element \<Rightarrow> element list" where
  "pool_entries root = filter (\<lambda>e. elem_tag e = qn ''si'') (elem_children root)"

subsection \<open>\<open>read_shared_strings\<close>\<close>

text \<open>
  An opened archive is the map from its member names to their bytes. The XML parser
  \<open>ET.fromstring\<close> is a parameter: it returns the root element or raises.
\<close>

type_synonym zipfile = "string \<Rightarrow> byte list option"
type_synonym xml_parser = "byte list \<Rightarrow> py_error + element"

definition read_shared_strings :: "xml_parser \<Rightarrow> zipfile \<Rightarrow> py_error + string list" where
  "read_shared_strings fromstring zf =
     (case zf ''xl/sharedStrings.xml'' of
        None \<Rightarrow> Inr []
      | Some data \<Rightarrow>
          (case fromstring data of
             Inl e \<Rightarrow> Inl e
           | Inr root \<Rightarrow>
               Inr (foldl (\<lambda>values si.
                      values @ [concat (map text_or_empty (elem_findall_desc si (qn ''t'')))])
                    [] (elem_findall root (qn ''si'')))))"

subsection \<open>\<open>read_sheet_rows\<close>\<close>

text \<open>
  \<open>int(text)\<close> for the text of a value node: \<open>TypeError\<close> on \<open>None\<close>; otherwise white
  space around the number is dropped (tab to carriage return, space, and the code points
  133 and 160), one sign is allowed, and the digits may be separated by single
  underscores; more than 4300 digits are refused (the interpreter's default limit).
\<close>

definition int_space :: "char \<Rightarrow> bool" where
  "int_space ch =
     (let n = (of_char ch :: nat) in (9 \<le> n \<and> n \<le> 13) \<or> n = 32 \<or> n = 133 \<or> n = 160)"

definition int_digit :: "char \<Rightarrow> bool" where
  "int_digit ch = (let n = (of_char ch :: nat) in 48 \<le> n \<and> n \<le> 57)"

fun int_digits :: "bool \<Rightarrow> nat \<Rightarrow> int \<Rightarrow> string \<Rightarrow> (nat \<times> int) option" where
  "int_digits after_us n v [] = (if after_us then None else Some (n, v))"
| "int_digits after_us n v (ch # rest) =
     (if int_digit ch then int_digits False (Suc n) (v * 10 + (of_char ch - 48)) rest
      else if ch = CHR ''_'' \<and> \<not> after_us then int_digits True n v rest
      else None)"

definition py_int :: "string option \<Rightarrow> py_error + int" where
  "py_int text =
     (case text of
        None \<Rightarrow> Inl TypeError
      | Some t \<Rightarrow>
          (let s = rev (dropWhile int_space (rev (dropWhile int_space t)));
               (sign, ds) =
                 (case s of
                    [] \<Rightarrow> (1, [])
                  | ch # rest \<Rightarrow>
                      if ch = CHR ''+'' then (1, rest)
                      else if ch = CHR ''-'' then (- 1, rest)
                      else (1, s))
           in case int_digits True 0 0 ds of
                None \<Rightarrow> Inl ValueError
              | Some (n, v) \<Rightarrow> if 4300 < n then Inl ValueError else Inr (sign * v)))"

text \<open>\<open>xs[i]\<close> on a list: an index below zero counts from the end.\<close>

definition list_getitem :: "'a list \<Rightarrow> int \<Rightarrow> py_error + 'a" where
  "list_getitem xs i =
     (if 0 \<le> i \<and> i < int (length xs) then Inr (xs ! nat i)
      else if i < 0 \<and> - int (length xs) \<le> i then Inr (xs ! nat (int (length xs) + i))
      else Inl IndexError)"

type_synonym row_values = "int \<Rightarrow> string option"

text \<open>The body of the loop over the cells of a row, for one cell.\<close>

definition read_cell :: "string list \<Rightarrow> row_values \<Rightarrow> element \<Rightarrow> py_error + row_values" where
  "read_cell shared_strings row_values cell =
     (case map_of (elem_attrib cell) ''r'' of
        None \<Rightarrow> Inl KeyError
      | Some r \<Rightarrow>
          (case col_index r of
             Inl e \<Rightarrow> Inl e
           | Inr idx \<Rightarrow>
               (case elem_find cell (qn ''v'') of
                  None \<Rightarrow> Inr (row_values(idx \<mapsto> []))
                | Some raw \<Rightarrow>
                    if map_of (elem_attrib cell) ''t'' = Some ''s'' then
                      (case py_int (elem_text raw) of
                         Inl e \<Rightarrow> Inl e
                       | Inr i \<Rightarrow>
                           (case list_getitem shared_strings i of
                              Inl e \<Rightarrow> Inl e
                            | Inr s \<Rightarrow> Inr (row_values(idx \<mapsto> s))))
                    else Inr (row_values(idx \<mapsto> text_or_empty raw)))))"

fun read_cells :: "string list \<Rightarrow> row_values \<Rightarrow> element list \<Rightarrow> py_error + row_values" where
  "read_cells shared_strings row_values [] = Inr row_values"
| "read_cells shared_strings row_values (cell # cells) =
     (case read_cell shared_strings row_values cell of
        Inl e \<Rightarrow> Inl e
      | Inr row_values' \<Rightarrow> read_cells shared_strings row_values' cells)"

text \<open>The loop over the rows, with the list \<open>rows\<close> built so far.\<close>

fun read_rows :: "string list \<Rightarrow> row_values list \<Rightarrow> element list \<Rightarrow> py_error + row_values list" where
  "read_rows shared_strings rows [] = Inr rows"
| "read_rows shared_strings rows (row # more) =
     (case read_cells shared_strings Map.empty (elem_findall row (qn ''c'')) of
        Inl e \<Rightarrow> Inl e
      | Inr row_values \<Rightarrow> read_rows shared_strings (rows @ [row_values]) more)"

text \<open>
  The part of \<open>read_sheet_rows\<close> after the archive is closed: \<open>find\<close> returns \<open>None\<close>
  when the sheet has no \<open>sheetData\<close> child, and \<open>findall\<close> on it raises.
\<close>

definition sheet_rows :: "string list \<Rightarrow> element \<Rightarrow> py_error + row_values list" where
  "sheet_rows shared_strings sheet_xml =
     (case elem_find sheet_xml (qn ''sheetData'') of
        None \<Rightarrow> Inl AttributeError
      | Some sheet_data \<Rightarrow> read_rows shared_strings [] (elem_findall sheet_data (qn ''row'')))"


text \<open>The column a cell is stored under, when its reference attribute yields one.\<close>

definition cell_column :: "element \<Rightarrow> int option" where
  "cell_column cell =
     (case map_of (elem_attrib cell) ''r'' of
        None \<Rightarrow> None
      | Some r \<Rightarrow> (case col_index r of Inl e \<Rightarrow> None | Inr idx \<Rightarrow> Some idx))"

subsection \<open>Example documents\<close>

text \<open>
  A pool of two entries: an empty one, and a rich-text entry whose two runs hold
  \<open>Course\<close> and \<open> Name\<close>, the second beside a formatting element.
\<close>

definition example_pool :: element where
  "example_pool =
     Element (qn ''sst'') [] None
       [Element (qn ''si'') [] None [],
        Element (qn ''si'') [] None
          [Element (qn ''r'') [] None [Element (qn ''t'') [] (Some ''Course'') []],
           Element (qn ''r'') [] None
             [Element (qn ''rPr'') [] None [], Element (qn ''t'') [] (Some '' Name'') []]]]"

definition example_archive :: zipfile where
  "example_archive = [''xl/sharedStrings.xml'' \<mapsto> []]"

text \<open>
  A sheet with one row of four cells: \<open>A1\<close> without a value node, \<open>C1\<close> referring to pool
  entry 1, \<open>D1\<close> referring to pool entry -1, and a cell whose reference \<open>12\<close> has no
  letter, holding the literal \<open>4.5\<close>.
\<close>

definition example_blank_cell :: element where
  "example_blank_cell = Element (qn ''c'') [(''r'', ''A1'')] None []"

definition example_shared_cell :: element where
  "example_shared_cell =
     Element (qn ''c'') [(''r'', ''C1''), (''t'', ''s'')] None [Element (qn ''v'') [] (Some ''1'') []]"

definition example_negative_cell :: element where
  "example_negative_cell =
     Element (qn ''c'') [(''r'', ''D1''), (''t'', ''s'')] None [Element (qn ''v'') [] (Some ''-1'') []]"

definition example_digits_cell :: element where
  "example_digits_cell =
     Element (qn ''c'') [(''r'', ''12'')] None [Element (qn ''v'') [] (Some ''4.5'') []]"

definition example_sheet :: element where
  "example_sheet =
     Element (qn ''worksheet'') [] None
       [Element (qn ''sheetData'') [] None
          [Element (qn ''row'') [] None
             [example_blank_cell, example_shared_cell, example_negative_cell,
              example_digits_cell]]]"

text \<open>The same row with a cell that refers to pool entry 2 of a pool of two.\<close>

definition example_overflow_cell :: element where
  "example_overflow_cell =
     Element (qn ''c'') [(''r'', ''B1''), (''t'', ''s'')] None [Element (qn ''v'') [] (Some ''2'') []]"

definition example_overflow_sheet :: element where
  "example_overflow_sheet =
     Element (qn ''worksheet'') [] None
       [Element (qn ''sheetData'') [] None
          [Element (qn ''row'') [] None [example_blank_cell, example_overflow_cell]]]"



section \<open>The image encoder\<close>

subsection \<open>Library functions\<close>

text \<open>
  \<open>struct.pack("!I", n)\<close>: the four bytes of \<open>n\<close>, most significant first; it raises
  \<open>struct.error\<close> unless \<open>0 \<le> n < 2 ^ 32\<close>.
\<close>

definition struct_pack_I :: "int \<Rightarrow> py_error + byte list" where
  "struct_pack_I n =
     (if 0 \<le> n \<and> n < 2 ^ 32
      then Inr [word_of_int (n div 2 ^ 24), word_of_int (n div 2 ^ 16),
                word_of_int (n div 2 ^ 8), word_of_int n]
      else Inl StructError)"

text \<open>
  \<open>struct.pack("!IIBBBBB", width, height, 8, 2, 0, 0, 0)\<close>: the two numbers as above,
  then the five one-byte constants, which are in range.
\<close>

definition struct_pack_IIBBBBB :: "int \<Rightarrow> int \<Rightarrow> py_error + byte list" where
  "struct_pack_IIBBBBB width height =
     (case struct_pack_I width of
        Inl e \<Rightarrow> Inl e
      | Inr w4 \<Rightarrow>
          (case struct_pack_I height of
             Inl e \<Rightarrow> Inl e
           | Inr h4 \<Rightarrow> Inr (w4 @ h4 @ [8, 2, 0, 0, 0])))"

text \<open>
  \<open>zlib.crc32\<close>: the CRC-32 of zip and deflate, bit by bit with the reflected
  polynomial \<open>0xEDB88320\<close>, starting from all ones and complemented at the end.
\<close>

definition crc32_bit :: "32 word \<Rightarrow> 32 word" where
  "crc32_bit c = (if bit c 0 then drop_bit 1 c XOR 0xEDB88320 else drop_bit 1 c)"

definition crc32_byte :: "32 word \<Rightarrow> byte \<Rightarrow> 32 word" where
  "crc32_byte c b = (crc32_bit ^^ 8) (c XOR ucast b)"

definition zlib_crc32 :: "byte list \<Rightarrow> int" where
  "zlib_crc32 data = uint (foldl crc32_byte 0xFFFFFFFF data XOR 0xFFFFFFFF)"

text \<open>Reading bytes as a number, most significant first.\<close>

definition big_endian :: "byte list \<Rightarrow> int" where
  "big_endian bs = foldl (\<lambda>n b. n * 256 + uint b) 0 bs"

subsection \<open>\<open>make_png\<close>\<close>

definition chunk :: "byte list \<Rightarrow> byte list \<Rightarrow> py_error + byte list" where
  "chunk tag data =
     (case struct_pack_I (int (length data)) of
        Inl e \<Rightarrow> Inl e
      | Inr len4 \<Rightarrow>
          (case struct_pack_I (zlib_crc32 (tag @ data) AND 0xFFFFFFFF) of
             Inl e \<Rightarrow> Inl e
           | Inr crc4 \<Rightarrow> Inr (len4 @ tag @ data @ crc4)))"

text \<open>The byte strings \<open>b"\x89PNG\r\n\x1a\n"\<close>, \<open>b"IHDR"\<close>, \<open>b"IDAT"\<close> and \<open>b"IEND"\<close>.\<close>

definition png_signature :: "byte list" where
  "png_signature = [0x89, 0x50, 0x4E, 0x47, 0x0D, 0x0A, 0x1A, 0x0A]"

definition IHDR :: "byte list" where
  "IHDR = [0x49, 0x48, 0x44, 0x52]"

definition IDAT :: "byte list" where
  "IDAT = [0x49, 0x44, 0x41, 0x54]"

definition IEND :: "byte list" where
  "IEND = [0x49, 0x45, 0x4E, 0x44]"

text \<open>
  The value of \<open>png\<close> in \<open>make_png\<close>. The parameter \<open>compress\<close> is
  \<open>zlib.compress\<close> at level 9.
\<close>

definition png_bytes ::
  "(byte list \<Rightarrow> byte list) \<Rightarrow> int \<Rightarrow> int \<Rightarrow> byte list list \<Rightarrow> py_error + byte list" where
  "png_bytes compress width height rgb_rows =
     (let raw = concat (map (\<lambda>row. 0 # row) rgb_rows) in
      case struct_pack_IIBBBBB width height of
        Inl e \<Rightarrow> Inl e
      | Inr ihdr \<Rightarrow>
          (case chunk IHDR ihdr of
             Inl e \<Rightarrow> Inl e
           | Inr header \<Rightarrow>
               (case chunk IDAT (compress raw) of
                  Inl e \<Rightarrow> Inl e
                | Inr pixels \<Rightarrow>
                    (case chunk IEND [] of
                       Inl e \<Rightarrow> Inl e
                     | Inr trailer \<Rightarrow> Inr (png_signature @ header @ pixels @ trailer)))))"

text \<open>
  The operating system is a parameter of \<open>make_png\<close>: \<open>path.parent\<close>,
  \<open>mkdir(parents=True, exist_ok=True)\<close> on a directory and \<open>write_bytes\<close> on a path.
  The two operations act on the state of the file system and may raise; each returns the
  exception raised, if any, and the state it leaves.
\<close>

datatype ('path, 'fs) os_ops =
  OS (parent: "'path \<Rightarrow> 'path")
     (mkdir: "'path \<Rightarrow> 'fs \<Rightarrow> py_error option \<times> 'fs")
     (write_bytes: "'path \<Rightarrow> byte list \<Rightarrow> 'fs \<Rightarrow> py_error option \<times> 'fs")

text \<open>
  \<open>make_png\<close>: \<open>png\<close> is built first; then the parent directory is created; then the
  file is written. An exception ends the function where it is raised. The result is the
  exception, if any, and the state of the file system afterwards.
\<close>

definition make_png ::
  "(byte list \<Rightarrow> byte list) \<Rightarrow> ('path, 'fs) os_ops \<Rightarrow> int \<Rightarrow> int \<Rightarrow> byte list list \<Rightarrow> 'path \<Rightarrow> 'fs
     \<Rightarrow> py_error option \<times> 'fs" where
  "make_png compress os width height rgb_rows path fs =
     (case png_bytes compress width height rgb_rows of
        Inl e \<Rightarrow> (Some e, fs)
      | Inr png \<Rightarrow>
          (case mkdir os (parent os path) fs of
             (Some e, fs') \<Rightarrow> (Some e, fs')
           | (None, fs') \<Rightarrow> write_bytes os path png fs'))"

text \<open>The frame of a chunk in the specification's words, for data shorter than 2 ^ 32.\<close>

definition be32 :: "int \<Rightarrow> byte list" where
  "be32 n = [word_of_int (n div 2 ^ 24), word_of_int (n div 2 ^ 16),
             word_of_int (n div 2 ^ 8), word_of_int n]"

definition framed :: "byte list \<Rightarrow> byte list \<Rightarrow> byte list" where
  "framed tag data = be32 (int (length data)) @ tag @ data @ be32 (zlib_crc32 (tag @ data))"

text \<open>The raw stream: each scanline behind a filter byte 0.\<close>

fun filtered_scanlines :: "byte list list \<Rightarrow> byte list" where
  "filtered_scanlines [] = []"
| "filtered_scanlines (row # more) = 0 # row @ filtered_scanlines more"

subsection \<open>Example images\<close>

text \<open>
  What \<open>zlib.compress\<close> at level 9 returns for the raw streams of the examples below:
  four zero bytes, three zero bytes and the empty stream.
\<close>

definition example_compress :: "byte list \<Rightarrow> byte list" where
  "example_compress raw =
     (if raw = [0, 0, 0, 0] then [0x78, 0xDA, 0x63, 0x60, 0x60, 0x60, 0, 0, 0, 4, 0, 1]
      else if raw = [0, 0, 0] then [0x78, 0xDA, 0x63, 0x60, 0x60, 0, 0, 0, 3, 0, 1]
      else [0x78, 0xDA, 0x03, 0, 0, 0, 0, 1])"

text \<open>
  A file system for the examples, without permissions or quotas: a relative path is the
  list of its components, and the state maps a path to the directory or the file there
  (the empty path is the working directory). \<open>mkdir\<close> with parents raises when a file
  stands at the directory's path or above it, and otherwise creates what is missing;
  \<open>write_bytes\<close> raises on a directory and under a missing parent, and otherwise
  replaces the file.
\<close>

datatype entry = Directory | File "byte list"

type_synonym tree = "string list \<Rightarrow> entry option"

fun prefixes :: "'a list \<Rightarrow> 'a list list" where
  "prefixes [] = []"
| "prefixes (x # xs) = [x] # map ((#) x) (prefixes xs)"

definition is_file :: "tree \<Rightarrow> string list \<Rightarrow> bool" where
  "is_file fs p = (case fs p of Some (File data) \<Rightarrow> True | _ \<Rightarrow> False)"

definition is_dir :: "tree \<Rightarrow> string list \<Rightarrow> bool" where
  "is_dir fs p = (p = [] \<or> fs p = Some Directory)"

definition example_mkdir :: "string list \<Rightarrow> tree \<Rightarrow> py_error option \<times> tree" where
  "example_mkdir dir fs =
     (if is_file fs dir then (Some FileExistsError, fs)
      else if list_ex (is_file fs) (prefixes dir) then (Some NotADirectoryError, fs)
      else (None, fold (\<lambda>p t. t(p \<mapsto> Directory)) (prefixes dir) fs))"

definition example_write_bytes :: "string list \<Rightarrow> byte list \<Rightarrow> tree \<Rightarrow> py_error option \<times> tree" where
  "example_write_bytes path data fs =
     (if is_dir fs path then (Some IsADirectoryError, fs)
      else if list_ex (is_file fs) (prefixes (butlast path)) then (Some NotADirectoryError, fs)
      else if \<not> is_dir fs (butlast path) then (Some FileNotFoundError, fs)
      else (None, fs(path \<mapsto> File data)))"

definition example_os :: "(string list, tree) os_ops" where
  "example_os = OS butlast example_mkdir example_write_bytes"

text \<open>The path \<open>outputs/rank_order.png\<close>, and a state in which \<open>outputs\<close> is a file.\<close>

definition OUTPUT_PNG :: "string list" where
  "OUTPUT_PNG = [''outputs'', ''rank_order.png'']"

definition outputs_is_a_file :: tree where
  "outputs_is_a_file = [[''outputs''] \<mapsto> File []]"

text \<open>A scanline for the width 2 ^ 32.\<close>

definition wide_row :: "byte list" where
  "wide_row = replicate (3 * 2 ^ 32) 0"

section \<open>Properties of \<open>col_index\<close>\<close>

lemma alphabet_cases:
  "ch \<in> set alphabet \<Longrightarrow> str_isalpha ch \<and> py_ord (str_upper ch) = Inr (letter_digit ch + 64)"
  unfolding alphabet_def set_simps insert_iff empty_iff
  apply (elim disjE)
  apply (simp_all add: str_isalpha_def str_upper_def py_ord_def letter_digit_def alphabet_def)
  done

lemma col_index_loop_letters:
  "\<forall>ch\<in>set letters. ch \<in> set alphabet \<Longrightarrow>
   col_index_loop v letters = Inr (foldl (\<lambda>value ch. value * 26 + letter_digit ch) v letters)"
  by (induction letters arbitrary: v) (simp_all add: alphabet_cases)

lemma lower_alphabet_cases:
  "ch \<in> set lower_alphabet \<Longrightarrow>
   str_isalpha ch \<and> py_ord (str_upper ch) = Inr (letter_digit (to_upper ch) + 64)"
  unfolding lower_alphabet_def set_simps insert_iff empty_iff
  apply (elim disjE)
  apply (simp_all add: str_isalpha_def str_upper_def py_ord_def letter_digit_def alphabet_def
      to_upper_def lower_alphabet_def)
  done

lemma to_upper_alphabet: "ch \<in> set alphabet \<Longrightarrow> to_upper ch = ch"
  unfolding alphabet_def set_simps insert_iff empty_iff
  apply (elim disjE)
  apply (simp_all add: to_upper_def alphabet_def lower_alphabet_def)
  done

lemma ascii_letter_cases:
  assumes "ch \<in> set alphabet \<union> set lower_alphabet"
  shows "str_isalpha ch" and "py_ord (str_upper ch) = Inr (letter_digit (to_upper ch) + 64)"
  using assms alphabet_cases [of ch] lower_alphabet_cases [of ch] to_upper_alphabet [of ch]
  by auto

lemma col_index_loop_ascii:
  "\<forall>ch\<in>set letters. ch \<in> set alphabet \<union> set lower_alphabet \<Longrightarrow>
   col_index_loop v letters =
     Inr (foldl (\<lambda>value ch. value * 26 + letter_digit (to_upper ch)) v letters)"
  by (induction letters arbitrary: v) (simp_all add: ascii_letter_cases)

lemma filter_ascii_letters:
  "\<forall>ch\<in>set r. str_isalpha ch \<longrightarrow> ch \<in> set alphabet \<union> set lower_alphabet \<Longrightarrow>
   filter str_isalpha r = filter (\<lambda>ch. ch \<in> set alphabet \<union> set lower_alphabet) r"
  by (rule filter_cong) (use ascii_letter_cases in blast)+

lemma py_ord_length:
  "py_ord s = (if length s = 1 then Inr (int (hd s)) else Inl TypeError)"
  by (cases s; cases "tl s") (auto simp: py_ord_def)

lemma col_index_loop_single:
  "\<forall>ch\<in>set letters. length (str_upper ch) = 1 \<Longrightarrow>
   col_index_loop v letters =
     Inr (foldl (\<lambda>value ch. value * 26 + (int (hd (str_upper ch)) - 64)) v letters)"
  by (induction letters arbitrary: v) (simp_all add: py_ord_length)

lemma col_index_loop_raises:
  "\<exists>ch\<in>set letters. length (str_upper ch) \<noteq> 1 \<Longrightarrow> col_index_loop v letters = Inl TypeError"
  by (induction letters arbitrary: v) (auto simp: py_ord_length)

lemma str_upper_length: "length (str_upper ch) \<noteq> 1 \<longleftrightarrow> ch = sharp_s"
proof -
  have e: "(of_char sharp_s :: nat) = 223" by (simp add: sharp_s_def)
  have "(of_char ch :: nat) = of_char sharp_s \<longleftrightarrow> ch = sharp_s"
    by (rule of_char_eq_iff)
  then have "(of_char ch :: nat) = 223 \<longleftrightarrow> ch = sharp_s"
    by (simp only: e)
  then show ?thesis by (auto simp: str_upper_def Let_def)
qed

text \<open>
  Claim C4 speaks of every reference with a letter. The sharp s is a letter whose
  upper-case form has two characters: \<open>ord\<close> raises \<open>TypeError\<close> on it, and
  \<open>col_index\<close> returns nothing.
\<close>

theorem col_index_sharp_s_counterexample:
  "filter str_isalpha [sharp_s, CHR ''1''] = [sharp_s] \<and>
   str_upper sharp_s = [83, 83] \<and>
   col_index [sharp_s, CHR ''1''] = Inl TypeError"
  by (simp add: col_index_def str_isalpha_def str_upper_def py_ord_def sharp_s_def)

text \<open>
  Claim C4 without that letter. For every reference in which each letter has an
  upper-case form of one character (among the code points 0 to 255, every letter but the
  sharp s), \<open>col_index\<close> drops
  the characters that are not letters, reads the letters in order as a base-26 numeral,
  accumulating \<open>value = value * 26 + digit\<close> with the code point of the upper-case form
  minus 64 as the digit, and returns that number minus one. For the letters A to Z and
  a to z the digits are A = 1 to Z = 26, in either case. In particular A is 0, Z is 25,
  AA is 26 and AMJ is 1023. A reference with a sharp s raises \<open>TypeError\<close>.
\<close>

theorem col_index_base26:
  "col_index ''A'' = Inr 0 \<and> col_index ''Z'' = Inr 25 \<and> col_index ''AA'' = Inr 26 \<and>
   col_index ''AMJ'' = Inr 1023 \<and>
   ((\<forall>ch\<in>set cell_ref. str_isalpha ch \<longrightarrow> ch \<in> set alphabet \<union> set lower_alphabet) \<longrightarrow>
      col_index cell_ref =
        Inr (column_number
               (map to_upper (filter (\<lambda>ch. ch \<in> set alphabet \<union> set lower_alphabet) cell_ref)) - 1)) \<and>
   ((\<forall>ch\<in>set cell_ref. str_isalpha ch \<longrightarrow> ch \<noteq> sharp_s) \<longrightarrow>
      col_index cell_ref =
        Inr (foldl (\<lambda>value ch. value * 26 + (int (hd (str_upper ch)) - 64)) 0
               (filter str_isalpha cell_ref) - 1)) \<and>
   ((\<exists>ch\<in>set cell_ref. str_isalpha ch \<and> ch = sharp_s) \<longrightarrow> col_index cell_ref = Inl TypeError)"
proof -
  have conc: "col_index ''A'' = Inr 0" "col_index ''Z'' = Inr 25" "col_index ''AA'' = Inr 26"
    "col_index ''AMJ'' = Inr 1023"
    by (simp_all add: col_index_def str_isalpha_def str_upper_def py_ord_def)
  have ascii: "col_index cell_ref =
      Inr (column_number
             (map to_upper (filter (\<lambda>ch. ch \<in> set alphabet \<union> set lower_alphabet) cell_ref)) - 1)"
    if h: "\<forall>ch\<in>set cell_ref. str_isalpha ch \<longrightarrow> ch \<in> set alphabet \<union> set lower_alphabet"
  proof -
    let ?letters = "filter (\<lambda>ch. ch \<in> set alphabet \<union> set lower_alphabet) cell_ref"
    have "col_index_loop 0 ?letters =
        Inr (foldl (\<lambda>value ch. value * 26 + letter_digit (to_upper ch)) 0 ?letters)"
      by (rule col_index_loop_ascii) simp
    also have "foldl (\<lambda>value ch. value * 26 + letter_digit (to_upper ch)) 0 ?letters
        = column_number (map to_upper ?letters)"
      by (simp add: column_number_def foldl_map)
    finally show ?thesis
      by (simp add: col_index_def filter_ascii_letters [OF h])
  qed
  have single: "col_index cell_ref =
      Inr (foldl (\<lambda>value ch. value * 26 + (int (hd (str_upper ch)) - 64)) 0
             (filter str_isalpha cell_ref) - 1)"
    if h: "\<forall>ch\<in>set cell_ref. str_isalpha ch \<longrightarrow> ch \<noteq> sharp_s"
  proof -
    from h have "\<forall>ch\<in>set (filter str_isalpha cell_ref). length (str_upper ch) = 1"
      using str_upper_length by auto
    from col_index_loop_single [OF this, of 0] show ?thesis
      by (simp add: col_index_def)
  qed
  have raises: "col_index cell_ref = Inl TypeError"
    if h: "\<exists>ch\<in>set cell_ref. str_isalpha ch \<and> ch = sharp_s"
  proof -
    from h have "\<exists>ch\<in>set (filter str_isalpha cell_ref). length (str_upper ch) \<noteq> 1"
      using str_upper_length by auto
    from col_index_loop_raises [OF this, of 0] show ?thesis
      by (simp add: col_index_def)
  qed
  from conc ascii single raises show ?thesis by blast
qed

theorem col_index_base26_witness:
  "filter str_isalpha ''aC12'' = ''aC'' \<and> set ''aC'' \<subseteq> set alphabet \<union> set lower_alphabet \<and>
   map to_upper ''aC'' = ''AC'' \<and> column_number ''AC'' = 29 \<and>
   col_index ''aC12'' = Inr 28 \<and>
   col_index [CHR ''A'', sharp_s] = Inl TypeError"
proof -
  have h: "\<forall>ch\<in>set ''aC12''. str_isalpha ch \<longrightarrow> ch \<in> set alphabet \<union> set lower_alphabet"
    by (simp add: alphabet_def lower_alphabet_def str_isalpha_def)
  have f: "filter (\<lambda>ch. ch \<in> set alphabet \<union> set lower_alphabet) ''aC12'' = ''aC''"
    by (simp add: alphabet_def lower_alphabet_def)
  have g: "filter str_isalpha ''aC12'' = ''aC''" "set ''aC'' \<subseteq> set alphabet \<union> set lower_alphabet"
    by (simp_all add: alphabet_def lower_alphabet_def str_isalpha_def)
  have u: "map to_upper ''aC'' = ''AC''"
    by (simp add: to_upper_def alphabet_def lower_alphabet_def)
  have c: "column_number ''AC'' = 29"
    by (simp add: column_number_def letter_digit_def alphabet_def)
  have s: "\<exists>ch\<in>set [CHR ''A'', sharp_s]. str_isalpha ch \<and> ch = sharp_s"
    by (simp add: str_isalpha_def sharp_s_def)
  from col_index_base26 [of "''aC12''"] h f u c
  have a: "col_index ''aC12'' = Inr 28" by simp
  from col_index_base26 [of "[CHR ''A'', sharp_s]"] s
  have b: "col_index [CHR ''A'', sharp_s] = Inl TypeError" by blast
  from g u c a b show ?thesis by (intro conjI)
qed

lemma letter_digit_range:
  "ch \<in> set alphabet \<Longrightarrow> letter_digit ch = int (of_char ch) - 64 \<and> 65 \<le> (of_char ch :: nat) \<and> (of_char ch :: nat) \<le> 90"
  unfolding alphabet_def set_simps insert_iff empty_iff
  apply (elim disjE)
  apply (simp_all add: letter_digit_def alphabet_def)
  done

lemma column_number_Cons:
  "foldl (\<lambda>value ch. value * 26 + letter_digit ch) v s = v * 26 ^ length s + column_number s"
proof (induction s arbitrary: v)
  case Nil
  show ?case by (simp add: column_number_def)
next
  case (Cons c s)
  have "foldl (\<lambda>value ch. value * 26 + letter_digit ch) v (c # s)
      = (v * 26 + letter_digit c) * 26 ^ length s + column_number s"
    by (simp add: Cons.IH)
  moreover have "column_number (c # s) = letter_digit c * 26 ^ length s + column_number s"
    by (simp add: column_number_def Cons.IH [of "letter_digit c"])
  ultimately show ?case by (simp add: algebra_simps)
qed

lemma column_number_step:
  "column_number (c # s) = letter_digit c * 26 ^ length s + column_number s"
  using column_number_Cons [of "letter_digit c" s] by (simp add: column_number_def)

lemma power_geo: "26 ^ n = 25 * geo n + 1"
  by (induction n) simp_all

lemma geo_nonneg: "0 \<le> geo n"
  by (induction n) simp_all

lemma geo_mono: "m \<le> n \<Longrightarrow> geo m \<le> geo n"
proof (induction n)
  case 0
  then show ?case by simp
next
  case (Suc n)
  show ?case
  proof (cases "m = Suc n")
    case True
    then show ?thesis by simp
  next
    case False
    with Suc have "geo m \<le> geo n" by simp
    with geo_nonneg [of n] show ?thesis by simp
  qed
qed

lemma column_number_bounds:
  "\<forall>ch\<in>set s. ch \<in> set alphabet \<Longrightarrow>
   geo (length s) \<le> column_number s \<and> column_number s \<le> 26 * geo (length s)"
proof (induction s)
  case Nil
  show ?case by (simp add: column_number_def)
next
  case (Cons c s)
  define g where "g = geo (length s)"
  define D where "D = letter_digit c * (25 * g + 1)"
  from Cons.prems have d: "1 \<le> letter_digit c" "letter_digit c \<le> 26"
    using letter_digit_range [of c] by auto
  from Cons have ih: "g \<le> column_number s" "column_number s \<le> 26 * g"
    by (auto simp: g_def)
  have p: "0 \<le> 25 * g + 1" using geo_nonneg [of "length s"] by (simp add: g_def)
  have "1 * (25 * g + 1) \<le> D"
    unfolding D_def using d(1) p by (intro mult_right_mono) auto
  then have lo: "25 * g + 1 \<le> D" by simp
  have "D \<le> 26 * (25 * g + 1)"
    unfolding D_def using d(2) p by (intro mult_right_mono) auto
  then have hi: "D \<le> 650 * g + 26" by simp
  have e: "column_number (c # s) = D + column_number s" "geo (length (c # s)) = 26 * g + 1"
    by (simp_all add: column_number_step D_def g_def power_geo)
  have "26 * g + 1 \<le> D + column_number s" using lo ih by linarith
  moreover have "D + column_number s \<le> 676 * g + 26" using hi ih by linarith
  ultimately show ?case unfolding e by simp
qed

lemma column_number_shorter:
  assumes "\<forall>ch\<in>set s1. ch \<in> set alphabet" "\<forall>ch\<in>set s2. ch \<in> set alphabet"
    and "length s1 < length s2"
  shows "column_number s1 < column_number s2"
proof -
  have "geo (Suc (length s1)) \<le> geo (length s2)"
    using assms(3) by (intro geo_mono) simp
  then have le: "26 * geo (length s1) + 1 \<le> geo (length s2)" by simp
  have b1: "column_number s1 \<le> 26 * geo (length s1)"
    using column_number_bounds [OF assms(1)] by simp
  have b2: "geo (length s2) \<le> column_number s2"
    using column_number_bounds [OF assms(2)] by simp
  from le b1 b2 show ?thesis by linarith
qed

lemma column_number_alpha_less:
  "\<forall>ch\<in>set s1. ch \<in> set alphabet \<Longrightarrow> \<forall>ch\<in>set s2. ch \<in> set alphabet \<Longrightarrow>
   length s1 = length s2 \<Longrightarrow> alpha_less s1 s2 \<Longrightarrow> column_number s1 < column_number s2"
proof (induction s1 s2 rule: alpha_less.induct)
  case (4 x xs y ys)
  define g where "g = geo (length ys)"
  define P where "P = 25 * g + 1"
  have len: "length xs = length ys" using "4.prems" by simp
  have bx: "column_number xs \<le> 26 * g"
    using column_number_bounds [of xs] "4.prems" by (simp add: g_def)
  have by': "g \<le> column_number ys"
    using column_number_bounds [of ys] "4.prems" by (simp add: g_def)
  have P0: "0 \<le> P" using geo_nonneg [of "length ys"] by (simp add: P_def g_def)
  have e: "column_number (x # xs) = letter_digit x * P + column_number xs"
    "column_number (y # ys) = letter_digit y * P + column_number ys"
    by (simp_all add: column_number_step P_def g_def len power_geo)
  show ?case
  proof (cases "(of_char x :: nat) < of_char y")
    case True
    then have "letter_digit x + 1 \<le> letter_digit y"
      using letter_digit_range [of x] letter_digit_range [of y] "4.prems" by simp
    then have "(letter_digit x + 1) * P \<le> letter_digit y * P"
      using P0 by (intro mult_right_mono) auto
    then have "letter_digit x * P + P \<le> letter_digit y * P"
      by (simp add: algebra_simps)
    with bx by' show ?thesis unfolding e P_def by linarith
  next
    case False
    with "4.prems" have xy: "x = y" and less: "alpha_less xs ys" by auto
    from "4.IH" "4.prems" len less False xy have "column_number xs < column_number ys" by simp
    with xy show ?thesis unfolding e by simp
  qed
qed simp_all

lemma alpha_less_total:
  "length s1 = length s2 \<Longrightarrow> s1 \<noteq> s2 \<Longrightarrow> alpha_less s1 s2 \<or> alpha_less s2 s1"
proof (induction s1 s2 rule: alpha_less.induct)
  case (4 x xs y ys)
  show ?case
  proof (cases "x = y")
    case True
    with 4 show ?thesis by auto
  next
    case False
    then have "(of_char x :: nat) \<noteq> of_char y" by simp
    then have "(of_char x :: nat) < of_char y \<or> (of_char y :: nat) < of_char x" by arith
    then show ?thesis by auto
  qed
qed simp_all

lemma col_index_letter_run:
  "\<forall>ch\<in>set s. ch \<in> set alphabet \<Longrightarrow> col_index s = Inr (column_number s - 1)"
proof -
  assume h: "\<forall>ch\<in>set s. ch \<in> set alphabet"
  then have "filter str_isalpha s = s"
    using alphabet_cases by (simp add: filter_id_conv)
  with col_index_loop_letters [OF h, of 0] show ?thesis
    by (simp add: col_index_def column_number_def)
qed

lemma shortlex_less_column_number:
  assumes "\<forall>ch\<in>set s1. ch \<in> set alphabet" "\<forall>ch\<in>set s2. ch \<in> set alphabet"
    and "shortlex_less s1 s2"
  shows "column_number s1 < column_number s2"
  using assms column_number_shorter column_number_alpha_less
  unfolding shortlex_less_def by blast

lemma shortlex_less_total:
  "s1 \<noteq> s2 \<Longrightarrow> shortlex_less s1 s2 \<or> shortlex_less s2 s1"
  using alpha_less_total [of s1 s2]
  unfolding shortlex_less_def by (cases "length s1 = length s2") auto

text \<open>
  Claim C5. On letter runs, \<open>col_index\<close> is strictly increasing for the
  length-then-alphabetical order and injective.
\<close>

theorem col_index_order_preserving:
  assumes "letter_run s1" and "letter_run s2"
  shows "(shortlex_less s1 s2 \<longrightarrow>
            (\<exists>i j. col_index s1 = Inr i \<and> col_index s2 = Inr j \<and> i < j)) \<and>
         (col_index s1 = col_index s2 \<longrightarrow> s1 = s2)"
proof -
  from assms have a: "\<forall>ch\<in>set s1. ch \<in> set alphabet" "\<forall>ch\<in>set s2. ch \<in> set alphabet"
    by (simp_all add: letter_run_def list_all_iff)
  have c: "col_index s1 = Inr (column_number s1 - 1)" "col_index s2 = Inr (column_number s2 - 1)"
    using a by (simp_all add: col_index_letter_run)
  have mono: "\<exists>i j. col_index s1 = Inr i \<and> col_index s2 = Inr j \<and> i < j"
    if "shortlex_less s1 s2"
    using shortlex_less_column_number [OF a that] c by simp
  have inj: "s1 = s2" if eq: "col_index s1 = col_index s2"
  proof (rule ccontr)
    assume "s1 \<noteq> s2"
    then consider "shortlex_less s1 s2" | "shortlex_less s2 s1"
      using shortlex_less_total by blast
    then show False
    proof cases
      case 1
      from shortlex_less_column_number [OF a 1] eq c show False by simp
    next
      case 2
      from shortlex_less_column_number [OF a(2) a(1) 2] eq c show False by simp
    qed
  qed
  from mono inj show ?thesis by blast
qed

theorem col_index_order_preserving_witness:
  "letter_run ''Z'' \<and> letter_run ''AA'' \<and> shortlex_less ''Z'' ''AA'' \<and>
   (\<exists>i j. col_index ''Z'' = Inr i \<and> col_index ''AA'' = Inr j \<and> i < j) \<and>
   col_index ''Z'' \<noteq> col_index ''AA''"
proof -
  have r: "letter_run ''Z''" "letter_run ''AA''"
    by (simp_all add: letter_run_def alphabet_def)
  have l: "shortlex_less ''Z'' ''AA''"
    by (simp add: shortlex_less_def)
  have n: "''Z'' \<noteq> ''AA''" by simp
  from col_index_order_preserving [OF r] l n r show ?thesis by blast
qed

section \<open>Properties of the shared-string pool\<close>

lemma elem_iter_descendants:
  "elem_iter t el = filter (\<lambda>e. elem_tag e = t) (el # descendants el)"
proof (induction el)
  case (Element tg at tx cs)
  have "concat (map (elem_iter t) cs)
      = concat (map (\<lambda>c. filter (\<lambda>e. elem_tag e = t) (c # descendants c)) cs)"
    using Element.IH by (intro arg_cong [where f = concat] map_cong) auto
  also have "\<dots> = filter (\<lambda>e. elem_tag e = t) (concat (map (\<lambda>c. c # descendants c) cs))"
    by (simp add: filter_concat comp_def)
  finally show ?case by simp
qed

lemma elem_findall_desc_descendants:
  "elem_findall_desc el t = filter (\<lambda>e. elem_tag e = t) (descendants el)"
proof (cases el)
  case (Element tg at tx cs)
  have "concat (map (elem_iter t) cs)
      = concat (map (\<lambda>c. filter (\<lambda>e. elem_tag e = t) (c # descendants c)) cs)"
    by (intro arg_cong [where f = concat] map_cong) (auto simp: elem_iter_descendants)
  also have "\<dots> = filter (\<lambda>e. elem_tag e = t) (concat (map (\<lambda>c. c # descendants c) cs))"
    by (simp add: filter_concat comp_def)
  finally show ?thesis using Element by (simp add: elem_findall_desc_def)
qed

lemma foldl_append_map: "foldl (\<lambda>values x. values @ [f x]) acc xs = acc @ map f xs"
  by (induction xs arbitrary: acc) simp_all

lemma read_shared_strings_present:
  assumes "zf ''xl/sharedStrings.xml'' = Some data" and "fromstring data = Inr root"
  shows "read_shared_strings fromstring zf
       = Inr (map (\<lambda>si. concat (text_runs si)) (pool_entries root))"
  using assms
  by (simp add: read_shared_strings_def foldl_append_map elem_findall_desc_descendants
      text_runs_def pool_entries_def elem_findall_def)

text \<open>
  Claim C6. Without the member \<open>xl/sharedStrings.xml\<close> the pool is empty. With it, the
  result has one string per pool entry, in document order; the string at position \<open>i\<close>
  is the concatenation of the text runs of the \<open>i\<close>-th entry, with no separator, and an
  entry without text runs gives the empty string at its position.
\<close>

theorem read_shared_strings_pool:
  "(zf ''xl/sharedStrings.xml'' = None \<longrightarrow> read_shared_strings fromstring zf = Inr []) \<and>
   (zf ''xl/sharedStrings.xml'' = Some data \<and> fromstring data = Inr root \<longrightarrow>
      (\<exists>values. read_shared_strings fromstring zf = Inr values \<and>
         length values = length (pool_entries root) \<and>
         (\<forall>i<length (pool_entries root).
            values ! i = concat (text_runs (pool_entries root ! i)) \<and>
            (text_runs (pool_entries root ! i) = [] \<longrightarrow> values ! i = ''''))))"
proof (intro conjI impI)
  assume "zf ''xl/sharedStrings.xml'' = None"
  then show "read_shared_strings fromstring zf = Inr []"
    by (simp add: read_shared_strings_def)
next
  assume a: "zf ''xl/sharedStrings.xml'' = Some data \<and> fromstring data = Inr root"
  let ?vs = "map (\<lambda>si. concat (text_runs si)) (pool_entries root)"
  have "read_shared_strings fromstring zf = Inr ?vs"
    using a by (simp add: read_shared_strings_present)
  moreover have "length ?vs = length (pool_entries root)" by simp
  moreover have "\<forall>i<length (pool_entries root).
      ?vs ! i = concat (text_runs (pool_entries root ! i)) \<and>
      (text_runs (pool_entries root ! i) = [] \<longrightarrow> ?vs ! i = '''')"
    by simp
  ultimately show "\<exists>values. read_shared_strings fromstring zf = Inr values \<and>
         length values = length (pool_entries root) \<and>
         (\<forall>i<length (pool_entries root).
            values ! i = concat (text_runs (pool_entries root ! i)) \<and>
            (text_runs (pool_entries root ! i) = [] \<longrightarrow> values ! i = ''''))"
    by blast
qed

theorem read_shared_strings_pool_witness:
  "read_shared_strings (\<lambda>data. Inr example_pool) Map.empty = Inr [] \<and>
   example_archive ''xl/sharedStrings.xml'' = Some [] \<and>
   length (pool_entries example_pool) = 2 \<and>
   text_runs (pool_entries example_pool ! 0) = [] \<and>
   text_runs (pool_entries example_pool ! 1) = [''Course'', '' Name''] \<and>
   read_shared_strings (\<lambda>data. Inr example_pool) example_archive = Inr ['''', ''Course Name'']"
proof -
  have m: "example_archive ''xl/sharedStrings.xml'' = Some []"
    by (simp add: example_archive_def)
  have p: "pool_entries example_pool =
      [Element (qn ''si'') [] None [],
       Element (qn ''si'') [] None
         [Element (qn ''r'') [] None [Element (qn ''t'') [] (Some ''Course'') []],
          Element (qn ''r'') [] None
            [Element (qn ''rPr'') [] None [], Element (qn ''t'') [] (Some '' Name'') []]]]"
    by (simp add: pool_entries_def example_pool_def)
  have t: "text_runs (pool_entries example_pool ! 0) = []"
    "text_runs (pool_entries example_pool ! 1) = [''Course'', '' Name'']"
    unfolding p by (simp_all add: text_runs_def text_or_empty_def qn_def)
  have l: "length (pool_entries example_pool) = 2" unfolding p by simp
  from read_shared_strings_pool [of Map.empty "\<lambda>data. Inr example_pool"]
  have e: "read_shared_strings (\<lambda>data. Inr example_pool) Map.empty = Inr []" by simp
  from read_shared_strings_pool
    [of example_archive "\<lambda>data. Inr example_pool" "[]" example_pool] m
  obtain vs where v: "read_shared_strings (\<lambda>data. Inr example_pool) example_archive = Inr vs"
    "length vs = length (pool_entries example_pool)"
    "\<forall>i<length (pool_entries example_pool). vs ! i = concat (text_runs (pool_entries example_pool ! i))"
    by auto
  from v(2) l obtain a b where ab: "vs = [a, b]"
    by (cases vs; cases "tl vs") auto
  from v(3) l t ab have "a = ''''" "b = ''Course Name''"
    by (auto simp: less_Suc_eq numeral_2_eq_2)
  with v(1) ab e m l t show ?thesis by simp
qed

section \<open>Properties of the sheet reader\<close>

lemma read_cell_stores:
  "read_cell shared m cell = Inr m' \<Longrightarrow> \<exists>idx s. cell_column cell = Some idx \<and> m' = m(idx \<mapsto> s)"
  by (auto simp: read_cell_def cell_column_def split: option.splits sum.splits if_splits)

lemma read_cell_error_any_row:
  "read_cell shared m cell = Inl e \<Longrightarrow> read_cell shared m' cell = Inl e"
  by (auto simp: read_cell_def split: option.splits sum.splits if_splits)

lemma read_cells_append:
  "read_cells shared m (xs @ ys) =
     (case read_cells shared m xs of Inl e \<Rightarrow> Inl e | Inr m1 \<Rightarrow> read_cells shared m1 ys)"
  by (induction xs arbitrary: m) (simp_all split: sum.splits)

lemma read_cells_other_column:
  "read_cells shared m cells = Inr m' \<Longrightarrow> \<forall>c\<in>set cells. cell_column c \<noteq> Some k \<Longrightarrow> m' k = m k"
proof (induction cells arbitrary: m)
  case Nil
  then show ?case by simp
next
  case (Cons c cells)
  from Cons.prems(1) obtain m1 where s: "read_cell shared m c = Inr m1"
    and r: "read_cells shared m1 cells = Inr m'"
    by (auto split: sum.splits)
  from read_cell_stores [OF s] Cons.prems(2) have "m1 k = m k" by auto
  moreover from Cons.IH [OF r] Cons.prems(2) have "m' k = m1 k" by simp
  ultimately show ?case by simp
qed

lemma read_cells_fails:
  "cell \<in> set cells \<Longrightarrow> read_cell shared m0 cell = Inl e \<Longrightarrow> \<exists>e'. read_cells shared m cells = Inl e'"
proof (induction cells arbitrary: m)
  case Nil
  then show ?case by simp
next
  case (Cons c cells)
  show ?case
  proof (cases "read_cell shared m c")
    case (Inl e')
    then show ?thesis by simp
  next
    case (Inr m1)
    with Cons.prems read_cell_error_any_row [of shared m0 cell e m] have "cell \<in> set cells"
      by auto
    from Cons.IH [OF this Cons.prems(2)] Inr show ?thesis by simp
  qed
qed

lemma read_rows_result:
  "read_rows shared acc row_elems = Inr rows \<Longrightarrow>
   length rows = length acc + length row_elems \<and>
   (\<forall>j<length acc. rows ! j = acc ! j) \<and>
   (\<forall>j<length row_elems.
      read_cells shared Map.empty (elem_findall (row_elems ! j) (qn ''c'')) = Inr (rows ! (length acc + j)))"
proof (induction row_elems arbitrary: acc)
  case Nil
  then show ?case by simp
next
  case (Cons row more)
  from Cons.prems obtain m where c: "read_cells shared Map.empty (elem_findall row (qn ''c'')) = Inr m"
    and r: "read_rows shared (acc @ [m]) more = Inr rows"
    by (auto split: sum.splits)
  from Cons.IH [OF r] have len: "length rows = length acc + 1 + length more"
    and old: "\<forall>j<length acc + 1. rows ! j = (acc @ [m]) ! j"
    and new: "\<forall>j<length more.
      read_cells shared Map.empty (elem_findall (more ! j) (qn ''c'')) = Inr (rows ! (length acc + 1 + j))"
    by simp_all
  from old have o1: "\<forall>j<length acc. rows ! j = acc ! j"
    by (auto simp: nth_append)
  from old have o2: "rows ! length acc = m"
    by (auto simp: nth_append)
  have "read_cells shared Map.empty (elem_findall ((row # more) ! j) (qn ''c''))
      = Inr (rows ! (length acc + j))" if "j < length (row # more)" for j
  proof (cases j)
    case 0
    with c o2 show ?thesis by simp
  next
    case (Suc j')
    with that new show ?thesis by simp
  qed
  with len o1 show ?case by simp
qed

lemma read_rows_fails:
  "row \<in> set row_elems \<Longrightarrow> read_cells shared Map.empty (elem_findall row (qn ''c'')) = Inl e \<Longrightarrow>
   \<exists>e'. read_rows shared acc row_elems = Inl e'"
proof (induction row_elems arbitrary: acc)
  case Nil
  then show ?case by simp
next
  case (Cons r more)
  show ?case
  proof (cases "read_cells shared Map.empty (elem_findall r (qn ''c''))")
    case (Inl e')
    then show ?thesis by simp
  next
    case (Inr m)
    with Cons.prems have "row \<in> set more" by auto
    from Cons.IH [OF this Cons.prems(2)] Inr show ?thesis by simp
  qed
qed
lemma sheet_rows_row:
  assumes "sheet_rows shared sheet_xml = Inr rows"
    and "elem_find sheet_xml (qn ''sheetData'') = Some sheet_data"
    and "j < length (elem_findall sheet_data (qn ''row''))"
  shows "read_cells shared Map.empty
           (elem_findall (elem_findall sheet_data (qn ''row'') ! j) (qn ''c'')) = Inr (rows ! j)"
  using assms read_rows_result [of shared "[]" "elem_findall sheet_data (qn ''row'')" rows]
  by (simp add: sheet_rows_def)

lemma sheet_rows_fails:
  assumes "elem_find sheet_xml (qn ''sheetData'') = Some sheet_data"
    and "row \<in> set (elem_findall sheet_data (qn ''row''))"
    and "cell \<in> set (elem_findall row (qn ''c''))"
    and "read_cell shared m cell = Inl e"
  shows "\<exists>e'. sheet_rows shared sheet_xml = Inl e'"
proof -
  from read_cells_fails [OF assms(3) assms(4)]
  obtain e1 where "read_cells shared Map.empty (elem_findall row (qn ''c'')) = Inl e1" by blast
  from read_rows_fails [OF assms(2) this] assms(1) show ?thesis
    by (simp add: sheet_rows_def)
qed

lemma example_sheet_rows:
  "sheet_rows ['''', ''Course Name''] example_sheet
     = Inr [[0 \<mapsto> '''', 2 \<mapsto> ''Course Name'', 3 \<mapsto> ''Course Name'', - 1 \<mapsto> ''4.5'']]"
  by (simp add: sheet_rows_def example_sheet_def elem_find_def elem_findall_def qn_def
      example_blank_cell_def example_shared_cell_def example_negative_cell_def
      example_digits_cell_def read_cell_def col_index_def str_isalpha_def str_upper_def
      py_ord_def py_int_def int_space_def int_digit_def list_getitem_def text_or_empty_def)

text \<open>
  Claim C7. A cell node without a value node is recorded as the empty string under its
  column index: that is the entry of the returned row unless a later cell of the same row
  has the same column. A column that no cell of the row has is not in the row mapping at
  all, which differs from holding the empty string.
\<close>

theorem blank_cell_recorded:
  assumes "sheet_rows shared sheet_xml = Inr rows"
    and "elem_find sheet_xml (qn ''sheetData'') = Some sheet_data"
    and "j < length (elem_findall sheet_data (qn ''row''))"
    and "elem_findall (elem_findall sheet_data (qn ''row'') ! j) (qn ''c'') = before @ cell # after"
    and "elem_find cell (qn ''v'') = None"
    and "cell_column cell = Some idx"
    and "\<forall>c\<in>set after. cell_column c \<noteq> Some idx"
  shows "read_cell shared m cell = Inr (m(idx \<mapsto> '''')) \<and>
         (rows ! j) idx = Some '''' \<and>
         (\<forall>k. (\<forall>c\<in>set (before @ cell # after). cell_column c \<noteq> Some k) \<longrightarrow> (rows ! j) k = None) \<and>
         (None :: string option) \<noteq> Some ''''"
proof -
  have step: "read_cell shared m' cell = Inr (m'(idx \<mapsto> ''''))" for m'
    using assms(5,6)
    by (auto simp: read_cell_def cell_column_def split: option.splits sum.splits)
  from sheet_rows_row [OF assms(1,2,3)] assms(4)
  have row: "read_cells shared Map.empty (before @ cell # after) = Inr (rows ! j)" by simp
  then obtain m1 where b: "read_cells shared Map.empty before = Inr m1"
    and a: "read_cells shared (m1(idx \<mapsto> '''')) after = Inr (rows ! j)"
    by (auto simp: read_cells_append step split: sum.splits)
  from read_cells_other_column [OF a assms(7)] have here: "(rows ! j) idx = Some ''''" by simp
  have absent: "(rows ! j) k = None"
    if "\<forall>c\<in>set (before @ cell # after). cell_column c \<noteq> Some k" for k
    using read_cells_other_column [OF row that] by simp
  from step [of m] here absent show ?thesis by blast
qed

theorem blank_cell_recorded_witness:
  "elem_find example_blank_cell (qn ''v'') = None \<and>
   cell_column example_blank_cell = Some 0 \<and>
   read_cell ['''', ''Course Name''] Map.empty example_blank_cell = Inr [0 \<mapsto> ''''] \<and>
   (\<exists>rows. sheet_rows ['''', ''Course Name''] example_sheet = Inr rows \<and>
      (rows ! 0) 0 = Some '''' \<and> (rows ! 0) 1 = None)"
proof -
  let ?after = "[example_shared_cell, example_negative_cell, example_digits_cell]"
  have sd: "elem_find example_sheet (qn ''sheetData'') =
      Some (Element (qn ''sheetData'') [] None
        [Element (qn ''row'') [] None (example_blank_cell # ?after)])"
    by (simp add: example_sheet_def elem_find_def elem_findall_def)
  have cells: "elem_findall (elem_findall (Element (qn ''sheetData'') [] None
        [Element (qn ''row'') [] None (example_blank_cell # ?after)]) (qn ''row'') ! 0) (qn ''c'')
      = [] @ example_blank_cell # ?after"
    by (simp add: elem_findall_def example_blank_cell_def example_shared_cell_def
        example_negative_cell_def example_digits_cell_def)
  have len: "0 < length (elem_findall (Element (qn ''sheetData'') [] None
        [Element (qn ''row'') [] None (example_blank_cell # ?after)]) (qn ''row''))"
    by (simp add: elem_findall_def)
  have v: "elem_find example_blank_cell (qn ''v'') = None"
    by (simp add: example_blank_cell_def elem_find_def elem_findall_def)
  have col: "cell_column example_blank_cell = Some 0"
    "cell_column example_shared_cell = Some 2"
    "cell_column example_negative_cell = Some 3"
    "cell_column example_digits_cell = Some (- 1)"
    by (simp_all add: cell_column_def example_blank_cell_def example_shared_cell_def
        example_negative_cell_def example_digits_cell_def col_index_def str_isalpha_def
        str_upper_def py_ord_def)
  have later: "\<forall>c\<in>set ?after. cell_column c \<noteq> Some 0"
    by (simp add: col)
  have none: "\<forall>c\<in>set ([] @ example_blank_cell # ?after). cell_column c \<noteq> Some 1"
    by (simp add: col)
  from blank_cell_recorded [OF example_sheet_rows sd len cells v col(1) later, of Map.empty] none
  have "read_cell ['''', ''Course Name''] Map.empty example_blank_cell = Inr [0 \<mapsto> '''']"
    and "([0 \<mapsto> '''', 2 \<mapsto> ''Course Name'', 3 \<mapsto> ''Course Name'', - 1 \<mapsto> ''4.5''] :: row_values) 0 = Some ''''"
    and "([0 \<mapsto> '''', 2 \<mapsto> ''Course Name'', 3 \<mapsto> ''Course Name'', - 1 \<mapsto> ''4.5''] :: row_values) 1 = None"
    by simp_all
  with v col(1) example_sheet_rows show ?thesis by simp
qed
text \<open>
  Claim C8. A cell of type \<open>s\<close> with a value node is resolved as \<open>shared_strings[index]\<close>:
  an index from 0 up to the pool size gives the pool entry at that position, and an index
  at or above the pool size raises \<open>IndexError\<close>, so that reading the sheet fails and
  returns no rows; no other entry or default value is stored.
\<close>

theorem shared_string_lookup:
  assumes "map_of (elem_attrib cell) ''t'' = Some ''s''"
    and "elem_find cell (qn ''v'') = Some raw"
    and "py_int (elem_text raw) = Inr i"
    and "cell_column cell = Some idx"
  shows "(0 \<le> i \<and> i < int (length shared) \<longrightarrow>
            read_cell shared m cell = Inr (m(idx \<mapsto> shared ! nat i))) \<and>
         (int (length shared) \<le> i \<longrightarrow>
            read_cell shared m cell = Inl IndexError \<and>
            read_cells shared m (cell # after) = Inl IndexError \<and>
            (\<forall>sheet_xml sheet_data row.
               elem_find sheet_xml (qn ''sheetData'') = Some sheet_data \<and>
               row \<in> set (elem_findall sheet_data (qn ''row'')) \<and>
               cell \<in> set (elem_findall row (qn ''c'')) \<longrightarrow>
               (\<exists>e. sheet_rows shared sheet_xml = Inl e)))"
proof (intro conjI impI allI)
  assume "0 \<le> i \<and> i < int (length shared)"
  with assms show "read_cell shared m cell = Inr (m(idx \<mapsto> shared ! nat i))"
    by (auto simp: read_cell_def cell_column_def list_getitem_def split: option.splits sum.splits)
next
  assume big: "int (length shared) \<le> i"
  with assms show cell_fails: "read_cell shared m cell = Inl IndexError"
    by (auto simp: read_cell_def cell_column_def list_getitem_def split: option.splits sum.splits)
  then show "read_cells shared m (cell # after) = Inl IndexError" by simp
  fix sheet_xml sheet_data row
  assume "elem_find sheet_xml (qn ''sheetData'') = Some sheet_data \<and>
          row \<in> set (elem_findall sheet_data (qn ''row'')) \<and>
          cell \<in> set (elem_findall row (qn ''c''))"
  with sheet_rows_fails [of sheet_xml sheet_data row cell shared m IndexError] cell_fails
  show "\<exists>e. sheet_rows shared sheet_xml = Inl e" by blast
qed

theorem shared_string_lookup_witness:
  "py_int (Some ''1'') = Inr 1 \<and> py_int (Some ''2'') = Inr 2 \<and>
   read_cell ['''', ''Course Name''] Map.empty example_shared_cell = Inr [2 \<mapsto> ''Course Name''] \<and>
   read_cell ['''', ''Course Name''] Map.empty example_overflow_cell = Inl IndexError \<and>
   (\<exists>e. sheet_rows ['''', ''Course Name''] example_overflow_sheet = Inl e)"
proof -
  have t: "map_of (elem_attrib example_shared_cell) ''t'' = Some ''s''"
    "map_of (elem_attrib example_overflow_cell) ''t'' = Some ''s''"
    by (simp_all add: example_shared_cell_def example_overflow_cell_def)
  have v: "elem_find example_shared_cell (qn ''v'') = Some (Element (qn ''v'') [] (Some ''1'') [])"
    "elem_find example_overflow_cell (qn ''v'') = Some (Element (qn ''v'') [] (Some ''2'') [])"
    by (simp_all add: example_shared_cell_def example_overflow_cell_def elem_find_def elem_findall_def)
  have i: "py_int (Some ''1'') = Inr 1" "py_int (Some ''2'') = Inr 2"
    by (simp_all add: py_int_def int_space_def int_digit_def)
  have col: "cell_column example_shared_cell = Some 2" "cell_column example_overflow_cell = Some 1"
    by (simp_all add: cell_column_def example_shared_cell_def example_overflow_cell_def
        col_index_def str_isalpha_def str_upper_def py_ord_def)
  have sd: "elem_find example_overflow_sheet (qn ''sheetData'') =
      Some (Element (qn ''sheetData'') [] None
        [Element (qn ''row'') [] None [example_blank_cell, example_overflow_cell]])"
    by (simp add: example_overflow_sheet_def elem_find_def elem_findall_def)
  have row: "Element (qn ''row'') [] None [example_blank_cell, example_overflow_cell]
      \<in> set (elem_findall (Element (qn ''sheetData'') [] None
        [Element (qn ''row'') [] None [example_blank_cell, example_overflow_cell]]) (qn ''row''))"
    by (simp add: elem_findall_def)
  have cell: "example_overflow_cell
      \<in> set (elem_findall (Element (qn ''row'') [] None [example_blank_cell, example_overflow_cell]) (qn ''c''))"
    by (simp add: elem_findall_def example_overflow_cell_def example_blank_cell_def)
  from shared_string_lookup [of example_shared_cell _ 1 2 "['''', ''Course Name'']" Map.empty, OF t(1)]
    v(1) i(1) col(1)
  have a: "read_cell ['''', ''Course Name''] Map.empty example_shared_cell = Inr [2 \<mapsto> ''Course Name'']"
    by simp
  have raw: "py_int (elem_text (Element (qn ''v'') [] (Some ''2'') [])) = Inr 2"
    using i(2) by simp
  have big: "int (length ['''', ''Course Name'']) \<le> 2" by simp
  note th = shared_string_lookup [OF t(2) v(2) raw col(2),
      of "['''', ''Course Name'']" Map.empty "[]"]
  from th have "int (length ['''', ''Course Name'']) \<le> 2 \<longrightarrow>
      read_cell ['''', ''Course Name''] Map.empty example_overflow_cell = Inl IndexError \<and>
      read_cells ['''', ''Course Name''] Map.empty [example_overflow_cell] = Inl IndexError \<and>
      (\<forall>sheet_xml sheet_data row.
         elem_find sheet_xml (qn ''sheetData'') = Some sheet_data \<and>
         row \<in> set (elem_findall sheet_data (qn ''row'')) \<and>
         example_overflow_cell \<in> set (elem_findall row (qn ''c'')) \<longrightarrow>
         (\<exists>e. sheet_rows ['''', ''Course Name''] sheet_xml = Inl e))"
    by (rule conjunct2)
  with big have b: "read_cell ['''', ''Course Name''] Map.empty example_overflow_cell = Inl IndexError"
    and all: "\<forall>sheet_xml sheet_data row.
         elem_find sheet_xml (qn ''sheetData'') = Some sheet_data \<and>
         row \<in> set (elem_findall sheet_data (qn ''row'')) \<and>
         example_overflow_cell \<in> set (elem_findall row (qn ''c'')) \<longrightarrow>
         (\<exists>e. sheet_rows ['''', ''Course Name''] sheet_xml = Inl e)"
    by blast+
  from all sd row cell have c: "\<exists>e. sheet_rows ['''', ''Course Name''] example_overflow_sheet = Inl e"
    by blast
  from i a b c show ?thesis by simp
qed

text \<open>
  Claim C10. A cell of type \<open>s\<close> whose index \<open>i\<close> is negative, but not below minus the pool
  size, is read without error: it gets the pool entry at position pool size plus \<open>i\<close>.
\<close>

theorem negative_index_from_end:
  assumes "map_of (elem_attrib cell) ''t'' = Some ''s''"
    and "elem_find cell (qn ''v'') = Some raw"
    and "py_int (elem_text raw) = Inr i"
    and "cell_column cell = Some idx"
    and "- int (length shared) \<le> i" and "i < 0"
  shows "read_cell shared m cell = Inr (m(idx \<mapsto> shared ! nat (int (length shared) + i)))"
  using assms
  by (auto simp: read_cell_def cell_column_def list_getitem_def split: option.splits sum.splits)

theorem negative_index_from_end_witness:
  "py_int (Some ''-1'') = Inr (- 1) \<and>
   read_cell ['''', ''Course Name''] Map.empty example_negative_cell = Inr [3 \<mapsto> ''Course Name'']"
proof -
  have t: "map_of (elem_attrib example_negative_cell) ''t'' = Some ''s''"
    by (simp add: example_negative_cell_def)
  have v: "elem_find example_negative_cell (qn ''v'') = Some (Element (qn ''v'') [] (Some ''-1'') [])"
    by (simp add: example_negative_cell_def elem_find_def elem_findall_def)
  have i: "py_int (Some ''-1'') = Inr (- 1)"
    by (simp add: py_int_def int_space_def int_digit_def)
  have col: "cell_column example_negative_cell = Some 3"
    by (simp add: cell_column_def example_negative_cell_def col_index_def str_isalpha_def
        str_upper_def py_ord_def)
  from negative_index_from_end [of example_negative_cell _ "- 1" 3 "['''', ''Course Name'']" Map.empty, OF t]
    v i col
  have "read_cell ['''', ''Course Name''] Map.empty example_negative_cell = Inr [3 \<mapsto> ''Course Name'']"
    by simp
  with i show ?thesis by simp
qed




section \<open>Properties of the image encoder\<close>

lemma struct_pack_I_be32:
  "struct_pack_I n = (if 0 \<le> n \<and> n < 2 ^ 32 then Inr (be32 n) else Inl StructError)"
  by (simp add: struct_pack_I_def be32_def)

lemma and_all_ones: "0 \<le> x \<Longrightarrow> x < 2 ^ 32 \<Longrightarrow> x AND 0xFFFFFFFF = x" for x :: int
proof -
  assume a: "0 \<le> x" "x < 2 ^ 32"
  have "(0xFFFFFFFF :: int) = mask 32" by (simp add: mask_eq_exp_minus_1)
  then have "x AND 0xFFFFFFFF = take_bit 32 x" by (simp only: take_bit_eq_mask)
  also have "\<dots> = x" using a by (simp add: take_bit_int_eq_self)
  finally show ?thesis .
qed

lemma zlib_crc32_range: "0 \<le> zlib_crc32 d \<and> zlib_crc32 d < 2 ^ 32"
proof -
  have "uint w < 2 ^ 32" for w :: "32 word"
    using uint_bounded [of w] by simp
  then show ?thesis by (simp add: zlib_crc32_def)
qed

lemma byte_of_int: "uint (word_of_int k :: byte) = k mod 256"
  by (simp add: uint_word_of_int take_bit_eq_mod)

lemma big_endian_be32:
  assumes "0 \<le> n" "n < 2 ^ 32"
  shows "big_endian (be32 n) = n"
proof -
  define q1 q2 q3 where "q1 = n div 2 ^ 8" and "q2 = n div 2 ^ 16" and "q3 = n div 2 ^ 24"
  define r0 r1 r2 where "r0 = n mod 256" and "r1 = q1 mod 256" and "r2 = q2 mod 256"
  have a: "q3 mod 256 = q3"
    using assms by (simp add: q3_def div_less_iff_less_mult)
  have d0: "n = q1 * 256 + r0"
    unfolding q1_def r0_def using div_mult_mod_eq [of n 256] by simp
  have d1: "q1 = q2 * 256 + r1"
    unfolding q1_def q2_def r1_def using div_mult_mod_eq [of "n div 2 ^ 8" 256]
    by (simp add: zdiv_zmult2_eq [symmetric])
  have d2: "q2 = q3 * 256 + r2"
    unfolding q2_def q3_def r2_def using div_mult_mod_eq [of "n div 2 ^ 16" 256]
    by (simp add: zdiv_zmult2_eq [symmetric])
  have "big_endian (be32 n) = ((q3 mod 256 * 256 + r2) * 256 + r1) * 256 + r0"
    by (simp add: big_endian_def be32_def byte_of_int q1_def q2_def q3_def r0_def r1_def r2_def)
  also have "\<dots> = ((q3 * 256 + r2) * 256 + r1) * 256 + r0" by (simp only: a)
  also have "\<dots> = n" by (simp only: d2 [symmetric] d1 [symmetric] d0 [symmetric])
  finally show ?thesis .
qed

lemma length_be32: "length (be32 n) = 4"
  by (simp add: be32_def)

lemma crc32_byte_unfold:
  "crc32_byte c b =
     crc32_bit (crc32_bit (crc32_bit (crc32_bit
       (crc32_bit (crc32_bit (crc32_bit (crc32_bit (c XOR ucast b))))))))"
proof -
  have "(8::nat) = Suc (Suc (Suc (Suc (Suc (Suc (Suc (Suc 0)))))))" by simp
  then show ?thesis unfolding crc32_byte_def by (simp only: funpow.simps o_apply id_apply)
qed

lemma chunk_framed:
  "chunk tag data =
     (if int (length data) < 2 ^ 32 then Inr (framed tag data) else Inl StructError)"
  using zlib_crc32_range [of "tag @ data"]
  by (simp add: chunk_def framed_def struct_pack_I_be32 and_all_ones)

lemma filtered_scanlines_concat:
  "concat (map (\<lambda>row. 0 # row) rgb_rows) = filtered_scanlines rgb_rows"
  by (induction rgb_rows) simp_all

lemma length_filtered_scanlines:
  "\<forall>row\<in>set rgb_rows. int (length row) = w \<Longrightarrow>
   int (length (filtered_scanlines rgb_rows)) = int (length rgb_rows) * (w + 1)"
  by (induction rgb_rows) (simp_all add: algebra_simps)

lemma crc32_IEND: "zlib_crc32 IEND = 0xAE426082"
  by (simp add: zlib_crc32_def IEND_def crc32_byte_unfold crc32_bit_def)

lemma crc32_check_value:
  "zlib_crc32 [0x31, 0x32, 0x33, 0x34, 0x35, 0x36, 0x37, 0x38, 0x39] = 0xCBF43926"
  by (simp add: zlib_crc32_def crc32_byte_unfold crc32_bit_def)

text \<open>
  Claim C2. A chunk that is emitted is the four-byte big-endian length of its data (the
  tag not counted), the tag, the data, and the four-byte big-endian CRC-32 of the tag
  followed by the data (the length bytes are not part of it). A chunk is emitted whenever
  the data is shorter than 2 ^ 32 bytes.
\<close>

theorem chunk_framing:
  "(int (length data) < 2 ^ 32 \<longrightarrow> chunk tag data = Inr (framed tag data)) \<and>
   (chunk tag data = Inr out \<longrightarrow>
      out = be32 (int (length data)) @ tag @ data @ be32 (zlib_crc32 (tag @ data)) \<and>
      length out = 4 + length tag + length data + 4 \<and>
      big_endian (take 4 out) = int (length data) \<and>
      take (length tag) (drop 4 out) = tag \<and>
      take (length data) (drop (4 + length tag) out) = data \<and>
      big_endian (drop (4 + length tag + length data) out) = zlib_crc32 (tag @ data))"
proof (intro conjI impI)
  assume "int (length data) < 2 ^ 32"
  then show "chunk tag data = Inr (framed tag data)" by (simp add: chunk_framed)
next
  assume a: "chunk tag data = Inr out"
  then have small: "int (length data) < 2 ^ 32" and out: "out = framed tag data"
    by (auto simp: chunk_framed split: if_splits)
  from out show "out = be32 (int (length data)) @ tag @ data @ be32 (zlib_crc32 (tag @ data))"
    by (simp add: framed_def)
  from out show "length out = 4 + length tag + length data + 4"
    by (simp add: framed_def length_be32)
  from out small show "big_endian (take 4 out) = int (length data)"
    by (simp add: framed_def length_be32 big_endian_be32)
  from out show "take (length tag) (drop 4 out) = tag"
    by (simp add: framed_def length_be32)
  from out show "take (length data) (drop (4 + length tag) out) = data"
    by (simp add: framed_def length_be32)
  from out zlib_crc32_range [of "tag @ data"]
  show "big_endian (drop (4 + length tag + length data) out) = zlib_crc32 (tag @ data)"
    by (simp add: framed_def length_be32 big_endian_be32)
qed

theorem chunk_framing_witness:
  "zlib_crc32 (IEND @ []) = 0xAE426082 \<and>
   chunk IEND [] = Inr [0, 0, 0, 0, 0x49, 0x45, 0x4E, 0x44, 0xAE, 0x42, 0x60, 0x82] \<and>
   big_endian [0xAE, 0x42, 0x60, 0x82] = 0xAE426082"
proof -
  have c: "zlib_crc32 (IEND @ []) = 0xAE426082" by (simp add: crc32_IEND)
  have s: "int (length ([] :: byte list)) < 2 ^ 32" by simp
  from chunk_framing [of "[]" IEND "framed IEND []"] s
  have f: "chunk IEND [] = Inr (framed IEND [])"
    and b: "big_endian (drop (4 + length IEND + length ([] :: byte list)) (framed IEND []))
        = zlib_crc32 (IEND @ [])"
    by simp_all
  have e: "framed IEND [] = [0, 0, 0, 0, 0x49, 0x45, 0x4E, 0x44, 0xAE, 0x42, 0x60, 0x82]"
    by (simp add: framed_def crc32_IEND be32_def) (simp add: IEND_def)
  from b have "big_endian [0xAE, 0x42, 0x60, 0x82] = 0xAE426082"
    unfolding e c by (simp add: IEND_def)
  with c f e show ?thesis by simp
qed
lemma png_bytes_framed:
  assumes "0 \<le> width" "width < 2 ^ 32" "0 \<le> height" "height < 2 ^ 32"
    and "int (length (compress (filtered_scanlines rgb_rows))) < 2 ^ 32"
  shows "png_bytes compress width height rgb_rows =
     Inr (png_signature @ framed IHDR (be32 width @ be32 height @ [8, 2, 0, 0, 0]) @
          framed IDAT (compress (filtered_scanlines rgb_rows)) @ framed IEND [])"
  using assms
  by (simp add: png_bytes_def struct_pack_IIBBBBB_def struct_pack_I_be32 chunk_framed
      filtered_scanlines_concat length_be32)

lemma png_bytes_fails:
  assumes "\<not> (0 \<le> width \<and> width < 2 ^ 32 \<and> 0 \<le> height \<and> height < 2 ^ 32 \<and>
             int (length (compress (filtered_scanlines rgb_rows))) < 2 ^ 32)"
  shows "png_bytes compress width height rgb_rows = Inl StructError"
  using assms
  by (auto simp: png_bytes_def struct_pack_IIBBBBB_def struct_pack_I_be32 chunk_framed
      filtered_scanlines_concat length_be32)

lemma length_wide_row: "int (length wide_row) = 4294967296 * 3"
proof -
  have "length wide_row = 3 * 2 ^ 32"
    unfolding wide_row_def by (rule length_replicate)
  then show ?thesis by simp
qed

lemma make_png_encoded:
  assumes "png_bytes compress width height rgb_rows = Inr png"
  shows "(mkdir os (parent os path) fs = (None, fs') \<longrightarrow>
            make_png compress os width height rgb_rows path fs = write_bytes os path png fs') \<and>
         (mkdir os (parent os path) fs = (Some e, fs') \<longrightarrow>
            make_png compress os width height rgb_rows path fs = (Some e, fs'))"
  using assms by (simp add: make_png_def)

lemma example_mkdir_outputs:
  "mkdir example_os (parent example_os OUTPUT_PNG) Map.empty = (None, [[''outputs''] \<mapsto> Directory])"
  by (simp add: example_os_def OUTPUT_PNG_def example_mkdir_def is_file_def)

lemma example_mkdir_blocked:
  "mkdir example_os (parent example_os OUTPUT_PNG) outputs_is_a_file
     = (Some FileExistsError, outputs_is_a_file)"
  by (simp add: example_os_def OUTPUT_PNG_def example_mkdir_def is_file_def outputs_is_a_file_def)

lemma example_write_bytes_outputs:
  "write_bytes example_os OUTPUT_PNG data [[''outputs''] \<mapsto> Directory]
     = (None, [[''outputs''] \<mapsto> Directory, OUTPUT_PNG \<mapsto> File data])"
  by (simp add: example_os_def OUTPUT_PNG_def example_write_bytes_def is_file_def is_dir_def)

lemma example_png:
  "png_signature @ framed IHDR (be32 1 @ be32 1 @ [8, 2, 0, 0, 0]) @
     framed IDAT (example_compress [0, 0, 0, 0]) @ framed IEND [] =
   [137, 80, 78, 71, 13, 10, 26, 10,
    0, 0, 0, 13, 73, 72, 68, 82, 0, 0, 0, 1, 0, 0, 0, 1, 8, 2, 0, 0, 0, 144, 119, 83, 222,
    0, 0, 0, 12, 73, 68, 65, 84, 120, 218, 99, 96, 96, 96, 0, 0, 0, 4, 0, 1, 200, 234, 235, 249,
    0, 0, 0, 0, 73, 69, 78, 68, 174, 66, 96, 130]"
  by (simp add: png_signature_def framed_def be32_def IHDR_def IDAT_def IEND_def
      example_compress_def zlib_crc32_def crc32_byte_unfold crc32_bit_def)

lemma example_png_short_row:
  "png_signature @ framed IHDR (be32 1 @ be32 1 @ [8, 2, 0, 0, 0]) @
     framed IDAT (example_compress [0, 0, 0]) @ framed IEND [] =
   [137, 80, 78, 71, 13, 10, 26, 10,
    0, 0, 0, 13, 73, 72, 68, 82, 0, 0, 0, 1, 0, 0, 0, 1, 8, 2, 0, 0, 0, 144, 119, 83, 222,
    0, 0, 0, 11, 73, 68, 65, 84, 120, 218, 99, 96, 96, 0, 0, 0, 3, 0, 1, 43, 9, 77, 132,
    0, 0, 0, 0, 73, 69, 78, 68, 174, 66, 96, 130]"
  by (simp add: png_signature_def framed_def be32_def IHDR_def IDAT_def IEND_def
      example_compress_def zlib_crc32_def crc32_byte_unfold crc32_bit_def)

lemma example_png_empty:
  "png_signature @ framed IHDR (be32 0 @ be32 0 @ [8, 2, 0, 0, 0]) @
     framed IDAT (example_compress []) @ framed IEND [] =
   [137, 80, 78, 71, 13, 10, 26, 10,
    0, 0, 0, 13, 73, 72, 68, 82, 0, 0, 0, 0, 0, 0, 0, 0, 8, 2, 0, 0, 0, 180, 233, 235, 69,
    0, 0, 0, 8, 73, 68, 65, 84, 120, 218, 3, 0, 0, 0, 0, 1, 111, 221, 201, 145,
    0, 0, 0, 0, 73, 69, 78, 68, 174, 66, 96, 130]"
  by (simp add: png_signature_def framed_def be32_def IHDR_def IDAT_def IEND_def
      example_compress_def zlib_crc32_def crc32_byte_unfold crc32_bit_def)

text \<open>
  Claim C1 promises the output for every width and height from 1 on. The header fields
  are four bytes wide: at the width 2 ^ 32, with one scanline of 3 * 2 ^ 32 bytes, packing
  the header raises an error, and the file system is not touched.
\<close>

theorem make_png_width_counterexample:
  "(1 :: int) \<le> 4294967296 \<and> int (length wide_row) = 4294967296 * 3 \<and>
   png_bytes example_compress 4294967296 1 [wide_row] = Inl StructError \<and>
   make_png example_compress example_os 4294967296 1 [wide_row] OUTPUT_PNG Map.empty
     = (Some StructError, Map.empty)"
proof -
  have "png_bytes example_compress 4294967296 1 [wide_row] = Inl StructError"
    by (rule png_bytes_fails) simp
  then show ?thesis
    by (simp add: make_png_def length_wide_row)
qed

text \<open>
  Claim C1 within the four-byte range. For a width and a height from 1 to 2 ^ 32 - 1,
  scanlines of three bytes per pixel and compressed data shorter than 2 ^ 32 bytes, the
  bytes the encoder builds are exactly: the signature; the header chunk, whose data is
  the width and the height, big-endian, and the bytes 8, 2, 0, 0, 0; the data chunk, whose
  data is the compression of the scanlines, each behind one filter byte 0 and nothing
  else between them; and the empty trailer chunk. These bytes are what is written to the
  path once the parent directory is there; when creating the directory raises, that is
  the result and nothing is written.
\<close>

theorem make_png_output:
  assumes "1 \<le> width" "width < 2 ^ 32" "1 \<le> height" "height < 2 ^ 32"
    and "\<forall>row\<in>set rgb_rows. int (length row) = width * 3"
    and "int (length (compress (filtered_scanlines rgb_rows))) < 2 ^ 32"
  shows "png_bytes compress width height rgb_rows =
           Inr (png_signature @ framed IHDR (be32 width @ be32 height @ [8, 2, 0, 0, 0]) @
                framed IDAT (compress (filtered_scanlines rgb_rows)) @ framed IEND []) \<and>
         (mkdir os (parent os path) fs = (None, fs') \<longrightarrow>
            make_png compress os width height rgb_rows path fs =
              write_bytes os path
                (png_signature @ framed IHDR (be32 width @ be32 height @ [8, 2, 0, 0, 0]) @
                 framed IDAT (compress (filtered_scanlines rgb_rows)) @ framed IEND []) fs') \<and>
         (mkdir os (parent os path) fs = (Some e, fs') \<longrightarrow>
            make_png compress os width height rgb_rows path fs = (Some e, fs')) \<and>
         big_endian (be32 width) = width \<and> big_endian (be32 height) = height \<and>
         int (length (filtered_scanlines rgb_rows)) = int (length rgb_rows) * (width * 3 + 1)"
proof -
  have p: "png_bytes compress width height rgb_rows =
           Inr (png_signature @ framed IHDR (be32 width @ be32 height @ [8, 2, 0, 0, 0]) @
                framed IDAT (compress (filtered_scanlines rgb_rows)) @ framed IEND [])"
    using assms by (intro png_bytes_framed) simp_all
  have w: "big_endian (be32 width) = width" "big_endian (be32 height) = height"
    using assms by (simp_all add: big_endian_be32)
  have l: "int (length (filtered_scanlines rgb_rows)) = int (length rgb_rows) * (width * 3 + 1)"
    using assms(5) by (rule length_filtered_scanlines)
  from p make_png_encoded [OF p, of os path fs fs' e] w l show ?thesis by blast
qed

theorem make_png_output_witness:
  "make_png example_compress example_os 1 1 [[0, 0, 0]] OUTPUT_PNG Map.empty =
     (None, [[''outputs''] \<mapsto> Directory, OUTPUT_PNG \<mapsto> File
       [137, 80, 78, 71, 13, 10, 26, 10,
        0, 0, 0, 13, 73, 72, 68, 82, 0, 0, 0, 1, 0, 0, 0, 1, 8, 2, 0, 0, 0, 144, 119, 83, 222,
        0, 0, 0, 12, 73, 68, 65, 84, 120, 218, 99, 96, 96, 96, 0, 0, 0, 4, 0, 1, 200, 234, 235, 249,
        0, 0, 0, 0, 73, 69, 78, 68, 174, 66, 96, 130]]) \<and>
   make_png example_compress example_os 1 1 [[0, 0, 0]] OUTPUT_PNG outputs_is_a_file =
     (Some FileExistsError, outputs_is_a_file)"
proof -
  have h: "\<forall>row\<in>set [[0, 0, 0 :: byte]]. int (length row) = 1 * 3" by simp
  have c: "int (length (example_compress (filtered_scanlines [[0, 0, 0]]))) < 2 ^ 32"
    by (simp add: example_compress_def)
  have r: "(1 :: int) \<le> 1" "(1 :: int) < 2 ^ 32" by simp_all
  from make_png_output [where width = 1 and height = 1 and rgb_rows = "[[0, 0, 0]]"
      and compress = example_compress and os = example_os and path = OUTPUT_PNG
      and fs = Map.empty and fs' = "[[''outputs''] \<mapsto> Directory]"]
    r h c example_mkdir_outputs
  have "make_png example_compress example_os 1 1 [[0, 0, 0]] OUTPUT_PNG Map.empty =
      write_bytes example_os OUTPUT_PNG
        (png_signature @ framed IHDR (be32 1 @ be32 1 @ [8, 2, 0, 0, 0]) @
         framed IDAT (example_compress [0, 0, 0, 0]) @ framed IEND [])
        [[''outputs''] \<mapsto> Directory]"
    by simp
  then have a: "make_png example_compress example_os 1 1 [[0, 0, 0]] OUTPUT_PNG Map.empty =
     (None, [[''outputs''] \<mapsto> Directory, OUTPUT_PNG \<mapsto> File
       [137, 80, 78, 71, 13, 10, 26, 10,
        0, 0, 0, 13, 73, 72, 68, 82, 0, 0, 0, 1, 0, 0, 0, 1, 8, 2, 0, 0, 0, 144, 119, 83, 222,
        0, 0, 0, 12, 73, 68, 65, 84, 120, 218, 99, 96, 96, 96, 0, 0, 0, 4, 0, 1, 200, 234, 235, 249,
        0, 0, 0, 0, 73, 69, 78, 68, 174, 66, 96, 130]])"
    by (simp only: example_png example_write_bytes_outputs)
  from make_png_output [where width = 1 and height = 1 and rgb_rows = "[[0, 0, 0]]"
      and compress = example_compress and os = example_os and path = OUTPUT_PNG
      and fs = outputs_is_a_file and fs' = outputs_is_a_file and e = FileExistsError]
    r h c example_mkdir_blocked
  have b: "make_png example_compress example_os 1 1 [[0, 0, 0]] OUTPUT_PNG outputs_is_a_file =
     (Some FileExistsError, outputs_is_a_file)"
    by simp
  from a b show ?thesis by (rule conjI)
qed
text \<open>
  Claim C3 says that a scanline of the wrong length, or a zero width or height, makes
  the encoder fail with nothing written. It does not fail: a scanline of two bytes at
  width 1, and an image of width and height 0, are both encoded and written in full.
\<close>

theorem make_png_geometry_counterexample:
  "int (length [0, 0 :: byte]) \<noteq> 1 * 3 \<and>
   make_png example_compress example_os 1 1 [[0, 0]] OUTPUT_PNG Map.empty =
     (None, [[''outputs''] \<mapsto> Directory, OUTPUT_PNG \<mapsto> File
       [137, 80, 78, 71, 13, 10, 26, 10,
        0, 0, 0, 13, 73, 72, 68, 82, 0, 0, 0, 1, 0, 0, 0, 1, 8, 2, 0, 0, 0, 144, 119, 83, 222,
        0, 0, 0, 11, 73, 68, 65, 84, 120, 218, 99, 96, 96, 0, 0, 0, 3, 0, 1, 43, 9, 77, 132,
        0, 0, 0, 0, 73, 69, 78, 68, 174, 66, 96, 130]]) \<and>
   make_png example_compress example_os 0 0 [] OUTPUT_PNG Map.empty =
     (None, [[''outputs''] \<mapsto> Directory, OUTPUT_PNG \<mapsto> File
       [137, 80, 78, 71, 13, 10, 26, 10,
        0, 0, 0, 13, 73, 72, 68, 82, 0, 0, 0, 0, 0, 0, 0, 0, 8, 2, 0, 0, 0, 180, 233, 235, 69,
        0, 0, 0, 8, 73, 68, 65, 84, 120, 218, 3, 0, 0, 0, 0, 1, 111, 221, 201, 145,
        0, 0, 0, 0, 73, 69, 78, 68, 174, 66, 96, 130]])"
proof -
  have a: "png_bytes example_compress 1 1 [[0, 0]] =
      Inr (png_signature @ framed IHDR (be32 1 @ be32 1 @ [8, 2, 0, 0, 0]) @
           framed IDAT (example_compress (filtered_scanlines [[0, 0]])) @ framed IEND [])"
    by (rule png_bytes_framed) (simp_all add: example_compress_def)
  have b: "png_bytes example_compress 0 0 [] =
      Inr (png_signature @ framed IHDR (be32 0 @ be32 0 @ [8, 2, 0, 0, 0]) @
           framed IDAT (example_compress (filtered_scanlines [])) @ framed IEND [])"
    by (rule png_bytes_framed) (simp_all add: example_compress_def)
  have f: "filtered_scanlines [[0, 0 :: byte]] = [0, 0, 0]" "filtered_scanlines ([] :: byte list list) = []"
    by simp_all
  show ?thesis
    unfolding make_png_def a b f example_png_short_row example_png_empty
    by (simp add: example_mkdir_outputs example_write_bytes_outputs)
qed

text \<open>
  Claim C3 as the code has it. The encoder does not look at the geometry: whatever the
  scanline lengths, and also for a zero width or height, it builds the complete file
  (signature, header chunk, data chunk, trailer chunk) whenever the width, the height and
  the length of the compressed data fit in four bytes; it then creates the parent
  directory and writes the complete file in one write, and when creating the directory
  raises, nothing is written. When one of the three does not fit, the encoder fails
  before any operation on the file system: the state is as before, with no file, whole
  or partial.
\<close>

theorem make_png_all_or_nothing:
  "(0 \<le> width \<and> width < 2 ^ 32 \<and> 0 \<le> height \<and> height < 2 ^ 32 \<and>
    int (length (compress (filtered_scanlines rgb_rows))) < 2 ^ 32 \<longrightarrow>
      png_bytes compress width height rgb_rows =
        Inr (png_signature @ framed IHDR (be32 width @ be32 height @ [8, 2, 0, 0, 0]) @
             framed IDAT (compress (filtered_scanlines rgb_rows)) @ framed IEND []) \<and>
      (mkdir os (parent os path) fs = (None, fs') \<longrightarrow>
         make_png compress os width height rgb_rows path fs =
           write_bytes os path
             (png_signature @ framed IHDR (be32 width @ be32 height @ [8, 2, 0, 0, 0]) @
              framed IDAT (compress (filtered_scanlines rgb_rows)) @ framed IEND []) fs') \<and>
      (mkdir os (parent os path) fs = (Some e, fs') \<longrightarrow>
         make_png compress os width height rgb_rows path fs = (Some e, fs'))) \<and>
   (\<not> (0 \<le> width \<and> width < 2 ^ 32 \<and> 0 \<le> height \<and> height < 2 ^ 32 \<and>
       int (length (compress (filtered_scanlines rgb_rows))) < 2 ^ 32) \<longrightarrow>
      png_bytes compress width height rgb_rows = Inl StructError \<and>
      make_png compress os width height rgb_rows path fs = (Some StructError, fs))"
proof (intro conjI impI)
  assume ok: "0 \<le> width \<and> width < 2 ^ 32 \<and> 0 \<le> height \<and> height < 2 ^ 32 \<and>
    int (length (compress (filtered_scanlines rgb_rows))) < 2 ^ 32"
  then show p: "png_bytes compress width height rgb_rows =
        Inr (png_signature @ framed IHDR (be32 width @ be32 height @ [8, 2, 0, 0, 0]) @
             framed IDAT (compress (filtered_scanlines rgb_rows)) @ framed IEND [])"
    by (intro png_bytes_framed) simp_all
  {
    assume "mkdir os (parent os path) fs = (None, fs')"
    with make_png_encoded [OF p, of os path fs fs' e]
    show "make_png compress os width height rgb_rows path fs =
           write_bytes os path
             (png_signature @ framed IHDR (be32 width @ be32 height @ [8, 2, 0, 0, 0]) @
              framed IDAT (compress (filtered_scanlines rgb_rows)) @ framed IEND []) fs'"
      by blast
  }
  {
    assume "mkdir os (parent os path) fs = (Some e, fs')"
    with make_png_encoded [OF p, of os path fs fs' e]
    show "make_png compress os width height rgb_rows path fs = (Some e, fs')"
      by blast
  }
next
  assume "\<not> (0 \<le> width \<and> width < 2 ^ 32 \<and> 0 \<le> height \<and> height < 2 ^ 32 \<and>
    int (length (compress (filtered_scanlines rgb_rows))) < 2 ^ 32)"
  then show f: "png_bytes compress width height rgb_rows = Inl StructError"
    by (rule png_bytes_fails)
  then show "make_png compress os width height rgb_rows path fs = (Some StructError, fs)"
    by (simp add: make_png_def)
qed

theorem make_png_all_or_nothing_witness:
  "int (length [0, 0 :: byte]) \<noteq> 1 * 3 \<and>
   make_png example_compress example_os 1 1 [[0, 0]] OUTPUT_PNG Map.empty =
     (None, [[''outputs''] \<mapsto> Directory, OUTPUT_PNG \<mapsto> File
       [137, 80, 78, 71, 13, 10, 26, 10,
        0, 0, 0, 13, 73, 72, 68, 82, 0, 0, 0, 1, 0, 0, 0, 1, 8, 2, 0, 0, 0, 144, 119, 83, 222,
        0, 0, 0, 11, 73, 68, 65, 84, 120, 218, 99, 96, 96, 0, 0, 0, 3, 0, 1, 43, 9, 77, 132,
        0, 0, 0, 0, 73, 69, 78, 68, 174, 66, 96, 130]]) \<and>
   make_png example_compress example_os 1 1 [[0, 0]] OUTPUT_PNG outputs_is_a_file =
     (Some FileExistsError, outputs_is_a_file) \<and>
   make_png example_compress example_os (- 1) 1 [[0, 0, 0]] OUTPUT_PNG outputs_is_a_file =
     (Some StructError, outputs_is_a_file)"
proof -
  have ok: "0 \<le> (1 :: int) \<and> (1 :: int) < 2 ^ 32 \<and> 0 \<le> (1 :: int) \<and> (1 :: int) < 2 ^ 32 \<and>
      int (length (example_compress (filtered_scanlines [[0, 0]]))) < 2 ^ 32"
    by (simp add: example_compress_def)
  have bad: "\<not> (0 \<le> (- 1 :: int) \<and> (- 1 :: int) < 2 ^ 32 \<and> 0 \<le> (1 :: int) \<and> (1 :: int) < 2 ^ 32 \<and>
      int (length (example_compress (filtered_scanlines [[0, 0, 0]]))) < 2 ^ 32)"
    by simp
  have f: "filtered_scanlines [[0, 0 :: byte]] = [0, 0, 0]" by simp
  from make_png_all_or_nothing [where width = 1 and height = 1 and rgb_rows = "[[0, 0]]"
      and compress = example_compress and os = example_os and path = OUTPUT_PNG
      and fs = Map.empty and fs' = "[[''outputs''] \<mapsto> Directory]"]
    ok example_mkdir_outputs
  have "make_png example_compress example_os 1 1 [[0, 0]] OUTPUT_PNG Map.empty =
      write_bytes example_os OUTPUT_PNG
        (png_signature @ framed IHDR (be32 1 @ be32 1 @ [8, 2, 0, 0, 0]) @
         framed IDAT (example_compress (filtered_scanlines [[0, 0]])) @ framed IEND [])
        [[''outputs''] \<mapsto> Directory]"
    by blast
  then have a: "make_png example_compress example_os 1 1 [[0, 0]] OUTPUT_PNG Map.empty =
     (None, [[''outputs''] \<mapsto> Directory, OUTPUT_PNG \<mapsto> File
       [137, 80, 78, 71, 13, 10, 26, 10,
        0, 0, 0, 13, 73, 72, 68, 82, 0, 0, 0, 1, 0, 0, 0, 1, 8, 2, 0, 0, 0, 144, 119, 83, 222,
        0, 0, 0, 11, 73, 68, 65, 84, 120, 218, 99, 96, 96, 0, 0, 0, 3, 0, 1, 43, 9, 77, 132,
        0, 0, 0, 0, 73, 69, 78, 68, 174, 66, 96, 130]])"
    by (simp only: f example_png_short_row example_write_bytes_outputs)
  from make_png_all_or_nothing [where width = 1 and height = 1 and rgb_rows = "[[0, 0]]"
      and compress = example_compress and os = example_os and path = OUTPUT_PNG
      and fs = outputs_is_a_file and fs' = outputs_is_a_file and e = FileExistsError]
    ok example_mkdir_blocked
  have b: "make_png example_compress example_os 1 1 [[0, 0]] OUTPUT_PNG outputs_is_a_file =
     (Some FileExistsError, outputs_is_a_file)"
    by blast
  from make_png_all_or_nothing [where width = "- 1" and height = 1 and rgb_rows = "[[0, 0, 0]]"
      and compress = example_compress and os = example_os and path = OUTPUT_PNG
      and fs = outputs_is_a_file]
    bad
  have c: "make_png example_compress example_os (- 1) 1 [[0, 0, 0]] OUTPUT_PNG outputs_is_a_file =
     (Some StructError, outputs_is_a_file)"
    by blast
  have n: "int (length [0, 0 :: byte]) \<noteq> 1 * 3" by simp
  from n a b c show ?thesis by (intro conjI)
qed

end
